theory Spec2Isabelle
  imports Complex_Main "HOL-Library.Sublist" "HOL-Library.Multiset"
begin

section \<open>Strings\<close>

text \<open>
  The customer service of the dashboard (\<open>CustomerService\<close>): an in-memory collection
  of customers and an id counter, with create, read, update, delete, listing, search and
  statistics.

  A JavaScript string is modelled as a list of 8-bit characters, read as the UTF-16 code
  units below 256 (Latin-1); \<open>length\<close> is the \<open>.length\<close> of the source.
  Numbers are modelled by exact rationals (health scores, comparator results) or by
  integers (page, limit, epoch milliseconds); \<open>NaN\<close> and the infinities are outside the
  model, except where the service computes \<open>0 / 0\<close> itself (the statistics), where the
  result is an option, and in the bounds of the health-score range query, which may be
  \<open>NaN\<close>. An optional field is an option, \<open>None\<close> for \<open>undefined\<close>.
\<close>

definition isWhiteSpace :: "char \<Rightarrow> bool" where
  \<comment> \<open>the characters below 256 that \<open>String.prototype.trim\<close> strips and \<open>\s\<close> matches\<close>
  "isWhiteSpace c = (of_char c \<in> {9, 10, 11, 12, 13, 32, 160 :: nat})"

definition trim :: "string \<Rightarrow> string" where
  "trim s = rev (dropWhile isWhiteSpace (rev (dropWhile isWhiteSpace s)))"

definition isUpper :: "char \<Rightarrow> bool" where
  \<comment> \<open>\<open>A-Z\<close>, and the Latin-1 capitals \<open>0xC0-0xDE\<close> without the multiplication sign\<close>
  "isUpper c = (let n = (of_char c :: nat) in
     (65 \<le> n \<and> n \<le> 90) \<or> (192 \<le> n \<and> n \<le> 222 \<and> n \<noteq> 215))"

definition toLowerChar :: "char \<Rightarrow> char" where
  "toLowerChar c = (if isUpper c then char_of (of_char c + (32 :: nat)) else c)"

definition toLowerCase :: "string \<Rightarrow> string" where
  "toLowerCase s = map toLowerChar s"

definition includesStr :: "string \<Rightarrow> string \<Rightarrow> bool" where
  \<comment> \<open>\<open>s.includes(t)\<close>: \<open>t\<close> occurs in \<open>s\<close> as a contiguous block\<close>
  "includesStr s t = sublist t s"

definition truthy :: "string option \<Rightarrow> bool" where
  \<comment> \<open>an optional string used as a condition: defined and not the empty string\<close>
  "truthy v = (case v of None \<Rightarrow> False | Some s \<Rightarrow> s \<noteq> [])"

subsection \<open>Number.prototype.toString on the id counter\<close>

definition digit :: "nat \<Rightarrow> char" where
  "digit d = char_of (48 + d)"

function toString :: "nat \<Rightarrow> string" where
  \<comment> \<open>the decimal numeral, which is what \<open>toString\<close> gives for a counter below \<open>10^21\<close>\<close>
  "toString n = (if n < 10 then [digit n] else toString (n div 10) @ [digit (n mod 10)])"
  by pat_completeness auto
termination
  by (relation "measure (\<lambda>n. n)") auto

declare toString.simps [simp del]

definition digitValue :: "char \<Rightarrow> nat" where
  "digitValue c = of_char c - 48"

definition parseDigits :: "string \<Rightarrow> nat" where
  "parseDigits s = foldl (\<lambda>a c. 10 * a + digitValue c) 0 s"

section \<open>Regular expressions\<close>

text \<open>
  The two patterns of the service use character classes, concatenation, \<open>*\<close>, \<open>+\<close> and
  \<open>{2,}\<close>, anchored at both ends; \<open>RegExp.prototype.test\<close> on such a pattern decides
  membership in a regular language. Matching is by derivatives.
\<close>

datatype rexp =
    Nothing
  | Empty
  | Class "char \<Rightarrow> bool"
  | Then rexp rexp
  | Or rexp rexp
  | Many rexp

fun nullable :: "rexp \<Rightarrow> bool" where
  "nullable Nothing = False"
| "nullable Empty = True"
| "nullable (Class p) = False"
| "nullable (Then r s) = (nullable r \<and> nullable s)"
| "nullable (Or r s) = (nullable r \<or> nullable s)"
| "nullable (Many r) = True"

fun deriv :: "char \<Rightarrow> rexp \<Rightarrow> rexp" where
  "deriv c Nothing = Nothing"
| "deriv c Empty = Nothing"
| "deriv c (Class p) = (if p c then Empty else Nothing)"
| "deriv c (Then r s) =
     (if nullable r then Or (Then (deriv c r) s) (deriv c s) else Then (deriv c r) s)"
| "deriv c (Or r s) = Or (deriv c r) (deriv c s)"
| "deriv c (Many r) = Then (deriv c r) (Many r)"

fun test :: "rexp \<Rightarrow> string \<Rightarrow> bool" where
  "test r [] = nullable r"
| "test r (c # cs) = test (deriv c r) cs"

definition OneOrMore :: "rexp \<Rightarrow> rexp" where
  "OneOrMore r = Then r (Many r)"

definition TwoOrMore :: "rexp \<Rightarrow> rexp" where
  "TwoOrMore r = Then r (Then r (Many r))"

definition Lit :: "char \<Rightarrow> rexp" where
  "Lit c = Class (\<lambda>x. x = c)"

definition isLetter :: "char \<Rightarrow> bool" where
  \<comment> \<open>\<open>[a-zA-Z]\<close>\<close>
  "isLetter c = (let n = (of_char c :: nat) in (97 \<le> n \<and> n \<le> 122) \<or> (65 \<le> n \<and> n \<le> 90))"

definition isAlnum :: "char \<Rightarrow> bool" where
  \<comment> \<open>\<open>[a-zA-Z0-9]\<close>\<close>
  "isAlnum c = (let n = (of_char c :: nat) in isLetter c \<or> (48 \<le> n \<and> n \<le> 57))"

definition isAlnumDash :: "char \<Rightarrow> bool" where
  \<comment> \<open>\<open>[a-zA-Z0-9-]\<close>\<close>
  "isAlnumDash c = (isAlnum c \<or> c = CHR ''-'')"

definition notSpaceAt :: "char \<Rightarrow> bool" where
  \<comment> \<open>\<open>[^\s@]\<close>\<close>
  "notSpaceAt c = (\<not> isWhiteSpace c \<and> c \<noteq> CHR ''@'')"

definition emailRegex :: rexp where
  \<comment> \<open>\<open>/^[^\s@]+@[^\s@]+\.[^\s@]+$/\<close>\<close>
  "emailRegex =
     Then (OneOrMore (Class notSpaceAt))
       (Then (Lit CHR ''@'')
         (Then (OneOrMore (Class notSpaceAt))
           (Then (Lit CHR ''.'') (OneOrMore (Class notSpaceAt)))))"

definition domainRegex :: rexp where
  \<comment> \<open>\<open>/^[a-zA-Z0-9][a-zA-Z0-9-]*[a-zA-Z0-9]*\.([a-zA-Z]{2,}(\.[a-zA-Z]{2,})*)$/\<close>\<close>
  "domainRegex =
     Then (Class isAlnum)
       (Then (Many (Class isAlnumDash))
         (Then (Many (Class isAlnum))
           (Then (Lit CHR ''.'')
             (Then (TwoOrMore (Class isLetter))
               (Many (Then (Lit CHR ''.'') (TwoOrMore (Class isLetter))))))))"

definition isValidEmail :: "string \<Rightarrow> bool" where
  "isValidEmail email = test emailRegex (trim email)"

definition isValidDomain :: "string \<Rightarrow> bool" where
  "isValidDomain domain = (test domainRegex (trim domain) \<and> length domain \<le> 253)"

section \<open>Data model\<close>

datatype tier = basic | premium | enterprise

text \<open>
  The \<open>Customer\<close> interface. \<open>createdAt\<close> and \<open>updatedAt\<close> hold ISO-8601 strings; the
  clock (\<open>new Date().toISOString()\<close>, \<open>Date.now()\<close>) and \<open>new Date(s).getTime()\<close> are
  parameters of the operations that read them, and so is \<open>localeCompare\<close>. The
  creation times are taken to be parseable dates, so that \<open>getTime\<close> is a number.
\<close>

record customer =
  idC :: string
  name :: string
  company :: string
  healthScore :: rat
  email :: "string option"
  subscriptionTier :: "tier option"
  domains :: "string list option"
  createdAt :: "string option"
  updatedAt :: "string option"

record customerCreateInput =
  ci_name :: string
  ci_company :: string
  ci_email :: "string option"
  ci_subscriptionTier :: "tier option"
  ci_domains :: "string list option"

record customerUpdateInput =
  ui_name :: "string option"
  ui_company :: "string option"
  ui_email :: "string option"
  ui_subscriptionTier :: "tier option"
  ui_domains :: "string list option"
  ui_healthScore :: "rat option"

datatype serviceError = ValidationError | NotFoundError | DuplicateError

definition code :: "serviceError \<Rightarrow> string" where
  \<comment> \<open>the \<open>code\<close> that \<open>handleError\<close> copies into the failure response\<close>
  "code e = (case e of ValidationError \<Rightarrow> ''VALIDATION_ERROR''
     | NotFoundError \<Rightarrow> ''NOT_FOUND'' | DuplicateError \<Rightarrow> ''DUPLICATE_ERROR'')"

text \<open>
  A \<open>ServiceResponse\<close> is \<open>Inr data\<close> for \<open>{success: true, data}\<close> and \<open>Inl e\<close> for the
  response \<open>handleError\<close> builds from the exception \<open>e\<close> caught by the operation's
  \<open>try\<close> block. The three error classes are the only exceptions the operations throw
  on inputs of their declared types.
\<close>

type_synonym 'a serviceResponse = "serviceError + 'a"

record service =
  customers :: "customer list"
  nextId :: nat

section \<open>Validation\<close>

definition validateCustomerInput :: "customerCreateInput \<Rightarrow> serviceError option" where
  \<comment> \<open>\<open>None\<close>: the method returns; \<open>Some e\<close>: it throws \<open>e\<close>\<close>
  "validateCustomerInput input =
    (if ci_name input = [] \<or> trim (ci_name input) = [] then Some ValidationError
     else if ci_company input = [] \<or> trim (ci_company input) = [] then Some ValidationError
     else if length (trim (ci_name input)) > 100 then Some ValidationError
     else if length (trim (ci_company input)) > 100 then Some ValidationError
     else if truthy (ci_email input) \<and> \<not> isValidEmail (the (ci_email input))
       then Some ValidationError
     else if (case ci_domains input of None \<Rightarrow> False
                | Some ds \<Rightarrow> \<exists>d \<in> set ds. \<not> isValidDomain d)
       then Some ValidationError
     else None)"

definition validateCustomerUpdateInput :: "customerUpdateInput \<Rightarrow> serviceError option" where
  "validateCustomerUpdateInput input =
    (if (case ui_name input of None \<Rightarrow> False | Some n \<Rightarrow> n = [] \<or> trim n = [])
       then Some ValidationError
     else if (case ui_company input of None \<Rightarrow> False | Some c \<Rightarrow> c = [] \<or> trim c = [])
       then Some ValidationError
     else if truthy (ui_name input) \<and> length (trim (the (ui_name input))) > 100
       then Some ValidationError
     else if truthy (ui_company input) \<and> length (trim (the (ui_company input))) > 100
       then Some ValidationError
     else if truthy (ui_email input) \<and> \<not> isValidEmail (the (ui_email input))
       then Some ValidationError
     else if (case ui_healthScore input of None \<Rightarrow> False | Some h \<Rightarrow> h < 0 \<or> h > 100)
       then Some ValidationError
     else if (case ui_domains input of None \<Rightarrow> False
                | Some ds \<Rightarrow> \<exists>d \<in> set ds. \<not> isValidDomain d)
       then Some ValidationError
     else None)"

section \<open>Health score\<close>

definition tierBonus :: "tier option \<Rightarrow> int" where
  \<comment> \<open>the \<open>switch\<close> on \<open>subscriptionTier\<close>; no case matches \<open>undefined\<close>\<close>
  "tierBonus t = (case t of Some enterprise \<Rightarrow> 30 | Some premium \<Rightarrow> 15
     | Some basic \<Rightarrow> 5 | None \<Rightarrow> 0)"

definition domainBonus :: "string list option \<Rightarrow> int" where
  "domainBonus ds = (case ds of None \<Rightarrow> 0 | Some xs \<Rightarrow> min (int (length xs) * 5) 20)"

definition emailBonus :: "string option \<Rightarrow> int" where
  "emailBonus e = (if truthy e then 10 else 0)"

definition calculateInitialHealthScore :: "customerCreateInput \<Rightarrow> rat" where
  "calculateInitialHealthScore input =
    (let score = 50 + tierBonus (ci_subscriptionTier input)
                    + domainBonus (ci_domains input)
                    + emailBonus (ci_email input)
     in of_int (min (max score 0) 100))"

definition mathRound :: "rat \<Rightarrow> int" where
  \<comment> \<open>\<open>Math.round\<close>: to the nearest integer, a half rounds up\<close>
  "mathRound x = \<lfloor>x + 1 / 2\<rfloor>"

definition ageBonus :: "(string \<Rightarrow> int) \<Rightarrow> int \<Rightarrow> string option \<Rightarrow> rat" where
  \<comment> \<open>\<open>getTime s\<close> is \<open>new Date(s).getTime()\<close>, \<open>nowMs\<close> is \<open>Date.now()\<close>\<close>
  "ageBonus getTime nowMs created =
    (if truthy created then
       (let accountAge = nowMs - getTime (the created);
            daysSinceCreation = of_int accountAge / (1000 * 60 * 60 * 24)
        in min (daysSinceCreation / 10) 15)
     else 0)"

definition calculateHealthScore :: "(string \<Rightarrow> int) \<Rightarrow> int \<Rightarrow> customer \<Rightarrow> rat" where
  "calculateHealthScore getTime nowMs c =
    (let score = of_int (50 + tierBonus (subscriptionTier c)
                            + domainBonus (domains c)
                            + emailBonus (email c))
                 + ageBonus getTime nowMs (createdAt c)
     in of_int (min (max (mathRound score) 0) 100))"

section \<open>Create\<close>

definition createCustomer ::
  "string \<Rightarrow> customerCreateInput \<Rightarrow> service \<Rightarrow> customer serviceResponse \<times> service" where
  \<comment> \<open>\<open>now\<close> is \<open>new Date().toISOString()\<close>\<close>
  "createCustomer now input s =
    (case validateCustomerInput input of
       Some e \<Rightarrow> (Inl e, s)
     | None \<Rightarrow>
        if truthy (ci_email input) \<and> (\<exists>c \<in> set (customers s). email c = ci_email input)
        then (Inl DuplicateError, s)
        else
          (let newCustomer = \<lparr>
                 idC = toString (nextId s),
                 name = trim (ci_name input),
                 company = trim (ci_company input),
                 healthScore = calculateInitialHealthScore input,
                 email = map_option trim (ci_email input),
                 subscriptionTier =
                   (case ci_subscriptionTier input of None \<Rightarrow> Some basic | Some t \<Rightarrow> Some t),
                 domains = (case ci_domains input of None \<Rightarrow> Some [] | Some ds \<Rightarrow> Some ds),
                 createdAt = Some now,
                 updatedAt = Some now \<rparr>
           in (Inr newCustomer, s\<lparr>customers := customers s @ [newCustomer],
                                   nextId := nextId s + 1\<rparr>)))"

section \<open>Read by id, update, delete\<close>

fun findIndex :: "('a \<Rightarrow> bool) \<Rightarrow> 'a list \<Rightarrow> nat option" where
  \<comment> \<open>\<open>Array.prototype.findIndex\<close>; \<open>None\<close> is the result \<open>-1\<close>\<close>
  "findIndex p [] = None"
| "findIndex p (x # xs) = (if p x then Some 0 else map_option Suc (findIndex p xs))"

definition blankId :: "string \<Rightarrow> bool" where
  \<comment> \<open>\<open>!id || id.trim() === ''\<close>\<close>
  "blankId i = (i = [] \<or> trim i = [])"

definition getCustomerById :: "string \<Rightarrow> service \<Rightarrow> customer serviceResponse" where
  "getCustomerById i s =
    (if blankId i then Inl ValidationError
     else case find (\<lambda>c. idC c = i) (customers s) of
            None \<Rightarrow> Inl NotFoundError
          | Some c \<Rightarrow> Inr c)"

definition mergeInput :: "string \<Rightarrow> customerUpdateInput \<Rightarrow> customer \<Rightarrow> customer" where
  \<comment> \<open>the object spread: the fields of the patch that are not \<open>undefined\<close> replace the
      stored ones, \<open>updatedAt\<close> is the clock reading\<close>
  "mergeInput now input existing = existing\<lparr>
      name := (case ui_name input of None \<Rightarrow> name existing | Some v \<Rightarrow> v),
      company := (case ui_company input of None \<Rightarrow> company existing | Some v \<Rightarrow> v),
      email := (case ui_email input of None \<Rightarrow> email existing | Some v \<Rightarrow> Some v),
      subscriptionTier :=
        (case ui_subscriptionTier input of None \<Rightarrow> subscriptionTier existing
           | Some v \<Rightarrow> Some v),
      domains := (case ui_domains input of None \<Rightarrow> domains existing | Some v \<Rightarrow> Some v),
      healthScore := (case ui_healthScore input of None \<Rightarrow> healthScore existing | Some v \<Rightarrow> v),
      updatedAt := Some now \<rparr>"

definition trimInput :: "customerUpdateInput \<Rightarrow> customer \<Rightarrow> customer" where
  \<comment> \<open>"Ensure trimmed strings"\<close>
  "trimInput input c =
    (let c1 = (if truthy (ui_name input) then c\<lparr>name := trim (the (ui_name input))\<rparr> else c);
         c2 = (if truthy (ui_company input)
               then c1\<lparr>company := trim (the (ui_company input))\<rparr> else c1)
     in if truthy (ui_email input)
        then c2\<lparr>email := Some (trim (the (ui_email input)))\<rparr> else c2)"

definition recalculate ::
  "(string \<Rightarrow> int) \<Rightarrow> int \<Rightarrow> customerUpdateInput \<Rightarrow> customer \<Rightarrow> customer" where
  \<comment> \<open>a tier is a non-empty string and an array is an object: both are truthy when present\<close>
  "recalculate getTime nowMs input c =
    (if ui_subscriptionTier input \<noteq> None \<or> ui_domains input \<noteq> None
     then c\<lparr>healthScore := calculateHealthScore getTime nowMs c\<rparr>
     else c)"

definition updateCustomer ::
  "(string \<Rightarrow> int) \<Rightarrow> string \<Rightarrow> int \<Rightarrow> string \<Rightarrow> customerUpdateInput \<Rightarrow> service
     \<Rightarrow> customer serviceResponse \<times> service" where
  \<comment> \<open>\<open>now\<close> is \<open>new Date().toISOString()\<close>, \<open>nowMs\<close> the later \<open>Date.now()\<close> of the
      health score\<close>
  "updateCustomer getTime now nowMs i input s =
    (if blankId i then (Inl ValidationError, s)
     else case findIndex (\<lambda>c. idC c = i) (customers s) of
       None \<Rightarrow> (Inl NotFoundError, s)
     | Some customerIndex \<Rightarrow>
        (case validateCustomerUpdateInput input of
           Some e \<Rightarrow> (Inl e, s)
         | None \<Rightarrow>
            if truthy (ui_email input) \<and>
               (\<exists>c \<in> set (customers s). idC c \<noteq> i \<and> email c = ui_email input)
            then (Inl DuplicateError, s)
            else
              (let existingCustomer = customers s ! customerIndex;
                   updatedCustomer =
                     recalculate getTime nowMs input
                       (trimInput input (mergeInput now input existingCustomer))
               in (Inr updatedCustomer,
                   s\<lparr>customers := (customers s)[customerIndex := updatedCustomer]\<rparr>))))"

definition deleteCustomer :: "string \<Rightarrow> service \<Rightarrow> bool serviceResponse \<times> service" where
  "deleteCustomer i s =
    (if blankId i then (Inl ValidationError, s)
     else case findIndex (\<lambda>c. idC c = i) (customers s) of
       None \<Rightarrow> (Inl NotFoundError, s)
     | Some customerIndex \<Rightarrow>
        (Inr True,
         s\<lparr>customers := take customerIndex (customers s)
                          @ drop (Suc customerIndex) (customers s)\<rparr>))"

section \<open>Queries\<close>

text \<open>
  The bounds of the range query are numbers the caller passes in, and the guard does not
  look at \<open>NaN\<close>: every comparison with \<open>NaN\<close> is false. A bound is therefore a
  number that may be \<open>NaN\<close>.
\<close>

datatype number = NaN | Finite rat

definition numLess :: "number \<Rightarrow> number \<Rightarrow> bool" where
  \<comment> \<open>the operator \<open><\<close>\<close>
  "numLess a b = (case (a, b) of (Finite x, Finite y) \<Rightarrow> x < y | _ \<Rightarrow> False)"

definition numGreater :: "number \<Rightarrow> number \<Rightarrow> bool" where
  \<comment> \<open>the operator \<open>>\<close>\<close>
  "numGreater a b = (case (a, b) of (Finite x, Finite y) \<Rightarrow> x > y | _ \<Rightarrow> False)"

definition numGreaterEq :: "number \<Rightarrow> number \<Rightarrow> bool" where
  \<comment> \<open>the operator \<open>>=\<close>\<close>
  "numGreaterEq a b = (case (a, b) of (Finite x, Finite y) \<Rightarrow> x \<ge> y | _ \<Rightarrow> False)"

definition numLessEq :: "number \<Rightarrow> number \<Rightarrow> bool" where
  \<comment> \<open>the operator \<open><=\<close>\<close>
  "numLessEq a b = (case (a, b) of (Finite x, Finite y) \<Rightarrow> x \<le> y | _ \<Rightarrow> False)"

definition getCustomersByHealthScore ::
  "number option \<Rightarrow> number option \<Rightarrow> service \<Rightarrow> customer list serviceResponse" where
  \<comment> \<open>an omitted argument takes its default, 0 or 100\<close>
  "getCustomersByHealthScore minArg maxArg s =
    (let minScore = (case minArg of None \<Rightarrow> Finite 0 | Some v \<Rightarrow> v);
         maxScore = (case maxArg of None \<Rightarrow> Finite 100 | Some v \<Rightarrow> v)
     in if numLess minScore (Finite 0) \<or> numGreater maxScore (Finite 100)
           \<or> numGreater minScore maxScore
        then Inl ValidationError
        else Inr (filter (\<lambda>c. numGreaterEq (Finite (healthScore c)) minScore \<and>
                              numLessEq (Finite (healthScore c)) maxScore)
                    (customers s)))"

definition getCustomersByTier :: "tier \<Rightarrow> service \<Rightarrow> customer list serviceResponse" where
  "getCustomersByTier t s = Inr (filter (\<lambda>c. subscriptionTier c = Some t) (customers s))"

definition matchesTerm :: "string \<Rightarrow> customer \<Rightarrow> bool" where
  \<comment> \<open>the predicate shared by the search and the \<open>searchTerm\<close> filter; a customer
      without email contributes \<open>undefined\<close>, which is falsy\<close>
  "matchesTerm searchLower c =
    (includesStr (toLowerCase (name c)) searchLower \<or>
     includesStr (toLowerCase (company c)) searchLower \<or>
     (case email c of None \<Rightarrow> False | Some e \<Rightarrow> includesStr (toLowerCase e) searchLower))"

definition searchCustomers :: "string \<Rightarrow> service \<Rightarrow> customer list serviceResponse" where
  "searchCustomers term s =
    (if term = [] \<or> trim term = [] then Inr []
     else Inr (filter (matchesTerm (trim (toLowerCase term))) (customers s)))"

record tierCounts =
  basicCount :: nat
  premiumCount :: nat
  enterpriseCount :: nat

record healthCounts =
  healthy :: nat
  warning :: nat
  critical :: nat

record customerStats =
  total :: nat
  byTier :: tierCounts
  averageHealthScore :: "int option"
  healthDistribution :: healthCounts

definition divide :: "rat \<Rightarrow> rat \<Rightarrow> rat option" where
  \<comment> \<open>the operator \<open>/\<close> on numbers; \<open>None\<close> is the result that is not a finite number
      (\<open>0 / 0\<close> is \<open>NaN\<close>), which \<open>Math.round\<close> hands on unchanged\<close>
  "divide x y = (if y = 0 then None else Some (x / y))"

definition getCustomerStats :: "service \<Rightarrow> customerStats serviceResponse" where
  "getCustomerStats s =
    (let cs = customers s in
     Inr \<lparr> total = length cs,
           byTier = \<lparr>
             basicCount = length (filter (\<lambda>c. subscriptionTier c = Some basic) cs),
             premiumCount = length (filter (\<lambda>c. subscriptionTier c = Some premium) cs),
             enterpriseCount = length (filter (\<lambda>c. subscriptionTier c = Some enterprise) cs) \<rparr>,
           averageHealthScore =
             map_option mathRound
               (divide (foldl (\<lambda>sum c. sum + healthScore c) 0 cs) (of_nat (length cs))),
           healthDistribution = \<lparr>
             healthy = length (filter (\<lambda>c. healthScore c \<ge> 71) cs),
             warning = length (filter (\<lambda>c. healthScore c \<ge> 31 \<and> healthScore c \<le> 70) cs),
             critical = length (filter (\<lambda>c. healthScore c \<le> 30) cs) \<rparr> \<rparr>)"

section \<open>Listing: filter, sort, paginate\<close>

datatype customerKey =
  KeyId | KeyName | KeyCompany | KeyHealthScore | KeyEmail | KeySubscriptionTier
  | KeyDomains | KeyCreatedAt | KeyUpdatedAt

datatype sortOrder = asc | desc

datatype fieldValue = Str string | Num rat | Arr "string list" | Undefined

definition tierName :: "tier \<Rightarrow> string" where
  "tierName t = (case t of basic \<Rightarrow> ''basic'' | premium \<Rightarrow> ''premium''
     | enterprise \<Rightarrow> ''enterprise'')"

definition optStr :: "string option \<Rightarrow> fieldValue" where
  "optStr v = (case v of None \<Rightarrow> Undefined | Some x \<Rightarrow> Str x)"

definition field :: "customerKey \<Rightarrow> customer \<Rightarrow> fieldValue" where
  \<comment> \<open>\<open>a[options.sortBy]\<close>\<close>
  "field k c = (case k of
      KeyId \<Rightarrow> Str (idC c)
    | KeyName \<Rightarrow> Str (name c)
    | KeyCompany \<Rightarrow> Str (company c)
    | KeyHealthScore \<Rightarrow> Num (healthScore c)
    | KeyEmail \<Rightarrow> optStr (email c)
    | KeySubscriptionTier \<Rightarrow> optStr (map_option tierName (subscriptionTier c))
    | KeyDomains \<Rightarrow> (case domains c of None \<Rightarrow> Undefined | Some ds \<Rightarrow> Arr ds)
    | KeyCreatedAt \<Rightarrow> optStr (createdAt c)
    | KeyUpdatedAt \<Rightarrow> optStr (updatedAt c))"

definition compareCustomers ::
  "(string \<Rightarrow> string \<Rightarrow> int) \<Rightarrow> customerKey \<Rightarrow> sortOrder option \<Rightarrow> customer \<Rightarrow> customer \<Rightarrow> rat"
  where
  \<comment> \<open>the comparator handed to \<open>sort\<close>; \<open>localeCompare\<close> is the built-in of that name\<close>
  "compareCustomers localeCompare k order a b =
    (let modifier = (if order = Some desc then - 1 else 1) in
     case (field k a, field k b) of
       (Str x, Str y) \<Rightarrow> of_int (localeCompare x y) * modifier
     | (Num x, Num y) \<Rightarrow> (x - y) * modifier
     | _ \<Rightarrow> 0)"

text \<open>
  \<open>Array.prototype.sort\<close> is a built-in of the engine and a parameter of the listing,
  as \<open>localeCompare\<close> is. \<open>arraySort\<close> is the reference stable sort, insertion from the
  right; it runs the examples.
\<close>

fun insertBy :: "('a \<Rightarrow> 'a \<Rightarrow> rat) \<Rightarrow> 'a \<Rightarrow> 'a list \<Rightarrow> 'a list" where
  "insertBy cmp x [] = [x]"
| "insertBy cmp x (y # ys) = (if cmp x y \<le> 0 then x # y # ys else y # insertBy cmp x ys)"

definition arraySort :: "('a \<Rightarrow> 'a \<Rightarrow> rat) \<Rightarrow> 'a list \<Rightarrow> 'a list" where
  "arraySort cmp xs = foldr (insertBy cmp) xs []"

definition slice :: "'a list \<Rightarrow> int \<Rightarrow> int \<Rightarrow> 'a list" where
  \<comment> \<open>\<open>Array.prototype.slice(start, end)\<close> on integers: a negative index counts from
      the end, both are clamped to the array\<close>
  "slice xs start stop =
    (let len = int (length xs);
         k = (if start < 0 then max (len + start) 0 else min start len);
         final = (if stop < 0 then max (len + stop) 0 else min stop len)
     in take (nat (final - k)) (drop (nat k) xs))"

record listOptions =
  o_subscriptionTier :: "tier option"
  healthScoreMin :: "rat option"
  healthScoreMax :: "rat option"
  o_company :: "string option"
  searchTerm :: "string option"
  page :: "int option"
  limit :: "int option"
  sortBy :: "customerKey option"
  sortOrder :: "sortOrder option"

record pagination =
  p_page :: int
  p_limit :: int
  p_total :: nat
  totalPages :: int

record paginatedResponse =
  data :: "customer list"
  pagination :: pagination

definition applyFilters :: "listOptions \<Rightarrow> customer list \<Rightarrow> customer list" where
  "applyFilters options cs =
    (let f1 = (case o_subscriptionTier options of None \<Rightarrow> cs
                 | Some t \<Rightarrow> filter (\<lambda>c. subscriptionTier c = Some t) cs);
         f2 = (case healthScoreMin options of None \<Rightarrow> f1
                 | Some m \<Rightarrow> filter (\<lambda>c. healthScore c \<ge> m) f1);
         f3 = (case healthScoreMax options of None \<Rightarrow> f2
                 | Some m \<Rightarrow> filter (\<lambda>c. healthScore c \<le> m) f2);
         f4 = (if truthy (o_company options)
               then filter (\<lambda>c. includesStr (toLowerCase (company c))
                                   (toLowerCase (the (o_company options)))) f3
               else f3)
     in if truthy (searchTerm options)
        then filter (matchesTerm (toLowerCase (the (searchTerm options)))) f4
        else f4)"

type_synonym sorter = "(customer \<Rightarrow> customer \<Rightarrow> rat) \<Rightarrow> customer list \<Rightarrow> customer list"

definition applySorting ::
  "sorter \<Rightarrow> (string \<Rightarrow> string \<Rightarrow> int) \<Rightarrow> listOptions \<Rightarrow> customer list \<Rightarrow> customer list"
  where
  \<comment> \<open>\<open>sortFn cmp xs\<close> is the array after \<open>xs.sort(cmp)\<close>\<close>
  "applySorting sortFn localeCompare options cs =
    (case sortBy options of None \<Rightarrow> cs
     | Some k \<Rightarrow> sortFn (compareCustomers localeCompare k (sortOrder options)) cs)"

definition orDefault :: "int option \<Rightarrow> int \<Rightarrow> int" where
  \<comment> \<open>\<open>v || d\<close> on an optional number: \<open>undefined\<close> and 0 are falsy\<close>
  "orDefault v d = (case v of None \<Rightarrow> d | Some n \<Rightarrow> if n = 0 then d else n)"

definition getCustomers ::
  "sorter \<Rightarrow> (string \<Rightarrow> string \<Rightarrow> int) \<Rightarrow> listOptions \<Rightarrow> service
     \<Rightarrow> paginatedResponse serviceResponse"
  where
  "getCustomers sortFn localeCompare options s =
    (let filteredCustomers =
           applySorting sortFn localeCompare options (applyFilters options (customers s));
         pg = orDefault (page options) 1;
         lim = orDefault (limit options) 10;
         startIndex = (pg - 1) * lim;
         endIndex = startIndex + lim
     in Inr \<lparr> data = slice filteredCustomers startIndex endIndex,
              pagination = \<lparr>
                p_page = pg,
                p_limit = lim,
                p_total = length filteredCustomers,
                totalPages = \<lceil>(of_nat (length filteredCustomers) :: rat) / of_int lim\<rceil> \<rparr> \<rparr>)"

section \<open>The public operations as one step function\<close>

datatype request =
    GetCustomers listOptions
  | GetCustomerById string
  | CreateCustomer string customerCreateInput
  | UpdateCustomer string int string customerUpdateInput
  | DeleteCustomer string
  | GetCustomersByHealthScore "number option" "number option"
  | GetCustomersByTier tier
  | SearchCustomers string
  | GetCustomerStats

datatype payload =
    Page paginatedResponse
  | One customer
  | Several "customer list"
  | Flag bool
  | Stats customerStats

record environment =
  env_sort :: sorter
  env_localeCompare :: "string \<Rightarrow> string \<Rightarrow> int"
  env_getTime :: "string \<Rightarrow> int"

fun perform :: "environment \<Rightarrow> request \<Rightarrow> service \<Rightarrow> payload serviceResponse \<times> service" where
  "perform env (GetCustomers options) s =
     (map_sum id Page (getCustomers (env_sort env) (env_localeCompare env) options s), s)"
| "perform env (GetCustomerById i) s = (map_sum id One (getCustomerById i s), s)"
| "perform env (CreateCustomer now input) s =
     (case createCustomer now input s of (r, s') \<Rightarrow> (map_sum id One r, s'))"
| "perform env (UpdateCustomer now nowMs i input) s =
     (case updateCustomer (env_getTime env) now nowMs i input s of (r, s') \<Rightarrow> (map_sum id One r, s'))"
| "perform env (DeleteCustomer i) s =
     (case deleteCustomer i s of (r, s') \<Rightarrow> (map_sum id Flag r, s'))"
| "perform env (GetCustomersByHealthScore lo hi) s =
     (map_sum id Several (getCustomersByHealthScore lo hi s), s)"
| "perform env (GetCustomersByTier t) s = (map_sum id Several (getCustomersByTier t s), s)"
| "perform env (SearchCustomers term) s = (map_sum id Several (searchCustomers term s), s)"
| "perform env GetCustomerStats s = (map_sum id Stats (getCustomerStats s), s)"

fun performAll :: "environment \<Rightarrow> request list \<Rightarrow> service \<Rightarrow> service" where
  "performAll env [] s = s"
| "performAll env (r # rs) s = performAll env rs (snd (perform env r s))"

section \<open>What the engine's sort guarantees\<close>

text \<open>
  A comparator is a consistent ordering on a set of elements when its sign is
  antisymmetric and "not greater" is transitive there: it then splits the elements into
  classes of equal ones and orders the classes. ECMAScript fixes the result of
  \<open>Array.prototype.sort\<close> only for such a comparator: the array is sorted by it and
  elements that compare equal keep their order (the sort is stable). For any other
  comparator the order is the engine's choice, and only the elements are the same.
\<close>

definition consistentOn :: "('a \<Rightarrow> 'a \<Rightarrow> rat) \<Rightarrow> 'a set \<Rightarrow> bool" where
  "consistentOn cmp S =
    ((\<forall>a \<in> S. \<forall>b \<in> S. (cmp a b < 0) = (0 < cmp b a)) \<and>
     (\<forall>a \<in> S. \<forall>b \<in> S. \<forall>c \<in> S. cmp a b \<le> 0 \<and> cmp b c \<le> 0 \<longrightarrow> cmp a c \<le> 0))"

definition sortsStably :: "sorter \<Rightarrow> bool" where
  "sortsStably sortFn =
    (\<forall>cmp xs. mset (sortFn cmp xs) = mset xs \<and>
       (consistentOn cmp (set xs) \<longrightarrow>
          sorted_wrt (\<lambda>a b. cmp a b \<le> 0) (sortFn cmp xs) \<and>
          (\<forall>x \<in> set xs. filter (\<lambda>y. cmp x y = 0) (sortFn cmp xs)
                           = filter (\<lambda>y. cmp x y = 0) xs)))"

section \<open>The specification's formulas\<close>

text \<open>
  The health score as the specification writes it, in real-number arithmetic:
  \<open>clamp(round(50 + tierBonus(T) + min(5*|D|, 20) + (E ? 10 : 0)), 0, 100)\<close>.
\<close>

definition specTierBonus :: "tier option \<Rightarrow> rat" where
  "specTierBonus t = (case t of Some enterprise \<Rightarrow> 30 | Some premium \<Rightarrow> 15 | Some basic \<Rightarrow> 5 | None \<Rightarrow> 0)"

definition specClamp :: "int \<Rightarrow> int \<Rightarrow> int \<Rightarrow> int" where
  "specClamp x lo hi = max lo (min hi x)"

definition specInitialScore :: "tier option \<Rightarrow> string list \<Rightarrow> string option \<Rightarrow> int" where
  "specInitialScore T D E =
     specClamp (round (50 + specTierBonus T + min (5 * of_nat (length D)) 20
                        + (if truthy E then 10 else 0))) 0 100"

text \<open>
  "Contains case-insensitively": the lower-cased field contains the lower-cased term.
\<close>

definition specContainsCI :: "string \<Rightarrow> string \<Rightarrow> bool" where
  "specContainsCI s t = includesStr (toLowerCase s) (toLowerCase t)"

definition specSearchMatch :: "string \<Rightarrow> customer \<Rightarrow> bool" where
  "specSearchMatch t c =
    (specContainsCI (name c) t \<or> specContainsCI (company c) t \<or>
     (case email c of None \<Rightarrow> False | Some e \<Rightarrow> specContainsCI e t))"

text \<open>
  The validation of a create input in the specification's words: name and company
  non-empty after trimming and at most 100 characters, the email (when one is given)
  well-formed, every domain valid. \<open>specClaimedViolation\<close> adds the two limits the
  specification also lists: an email of at most 254 characters and at most 10 domains.
\<close>

definition specCreateViolation :: "customerCreateInput \<Rightarrow> bool" where
  "specCreateViolation input =
    (trim (ci_name input) = [] \<or> trim (ci_company input) = [] \<or>
     100 < length (trim (ci_name input)) \<or> 100 < length (trim (ci_company input)) \<or>
     (truthy (ci_email input) \<and> \<not> isValidEmail (the (ci_email input))) \<or>
     (case ci_domains input of None \<Rightarrow> False | Some ds \<Rightarrow> list_ex (\<lambda>d. \<not> isValidDomain d) ds))"

definition specClaimedViolation :: "customerCreateInput \<Rightarrow> bool" where
  "specClaimedViolation input =
    (specCreateViolation input \<or>
     (truthy (ci_email input) \<and> 254 < length (the (ci_email input))) \<or>
     (case ci_domains input of None \<Rightarrow> False | Some ds \<Rightarrow> 10 < length ds))"

text \<open>
  The recomputed health score in the specification's words: the formula above plus the
  account-age bonus \<open>min(daysSinceCreatedAt / 10, 15)\<close>, where the days are the clock
  reading minus the creation time, in days, when a creation time is recorded.
\<close>

definition specDaysSince :: "(string \<Rightarrow> int) \<Rightarrow> int \<Rightarrow> string option \<Rightarrow> rat option" where
  "specDaysSince getTime nowMs created =
    (if truthy created then Some (of_int (nowMs - getTime (the created)) / 86400000) else None)"

definition specRecomputedScore ::
  "tier option \<Rightarrow> string list \<Rightarrow> string option \<Rightarrow> rat option \<Rightarrow> int" where
  "specRecomputedScore T D E days =
     specClamp (round (50 + specTierBonus T + min (5 * of_nat (length D)) 20
                        + (if truthy E then 10 else 0)
                        + (case days of None \<Rightarrow> 0 | Some d \<Rightarrow> min (d / 10) 15))) 0 100"

text \<open>
  The filters of the listing in the specification's words: all optional and conjunctive;
  the tier matches exactly, the health score bounds are inclusive, the company filter and
  the search term are case-insensitive substring matches.
\<close>

definition specFilterMatch :: "listOptions \<Rightarrow> customer \<Rightarrow> bool" where
  "specFilterMatch options c =
    ((case o_subscriptionTier options of None \<Rightarrow> True | Some t \<Rightarrow> subscriptionTier c = Some t) \<and>
     (case healthScoreMin options of None \<Rightarrow> True | Some m \<Rightarrow> m \<le> healthScore c) \<and>
     (case healthScoreMax options of None \<Rightarrow> True | Some m \<Rightarrow> healthScore c \<le> m) \<and>
     (if truthy (o_company options)
      then specContainsCI (company c) (the (o_company options)) else True) \<and>
     (if truthy (searchTerm options)
      then specSearchMatch (the (searchTerm options)) c else True))"

text \<open>
  The email invariant. \<open>emailsOf\<close> lists the non-empty emails of a collection, one
  entry per customer that has one; no two customers share an email when the list has no
  repetition. The specification compares case-insensitively (\<open>noSharedEmailCI\<close>).
  The state is well-formed when, besides, the ids are pairwise different decimal numerals
  below the id counter, as the counter assigns them.
\<close>

definition emailKey :: "customer \<Rightarrow> string list" where
  "emailKey c = (case email c of None \<Rightarrow> [] | Some e \<Rightarrow> if e = [] then [] else [e])"

definition emailsOf :: "customer list \<Rightarrow> string list" where
  "emailsOf cs = concat (map emailKey cs)"

definition noSharedEmail :: "service \<Rightarrow> bool" where
  "noSharedEmail s = distinct (emailsOf (customers s))"

definition noSharedEmailCI :: "service \<Rightarrow> bool" where
  "noSharedEmailCI s = distinct (map toLowerCase (emailsOf (customers s)))"

definition numberedBelow :: "nat \<Rightarrow> customer \<Rightarrow> bool" where
  "numberedBelow n c = (toString (parseDigits (idC c)) = idC c \<and> parseDigits (idC c) < n)"

definition wellFormed :: "service \<Rightarrow> bool" where
  "wellFormed s =
    (distinct (map idC (customers s)) \<and> list_all (numberedBelow (nextId s)) (customers s) \<and>
     noSharedEmail s)"

fun emailOfRequest :: "request \<Rightarrow> string option" where
  "emailOfRequest (CreateCustomer now input) = ci_email input"
| "emailOfRequest (UpdateCustomer now nowMs i input) = ui_email input"
| "emailOfRequest r = None"

definition trimmedRequest :: "request \<Rightarrow> bool" where
  \<comment> \<open>the email of the request, if it has one, carries no surrounding whitespace\<close>
  "trimmedRequest r = (case emailOfRequest r of None \<Rightarrow> True | Some e \<Rightarrow> trim e = e)"

section \<open>Sample data\<close>

definition janeInput :: customerCreateInput where
  "janeInput = \<lparr>ci_name = ''Jane Doe'', ci_company = ''Acme'', ci_email = Some ''jane@acme.com'',
     ci_subscriptionTier = Some premium, ci_domains = Some [''acme.com'']\<rparr>"

definition emptyService :: service where
  "emptyService = \<lparr>customers = [], nextId = 9\<rparr>"

definition janeCustomer :: customer where
  "janeCustomer = \<lparr>idC = ''9'', name = ''Jane Doe'', company = ''Acme'', healthScore = 80,
     email = Some ''jane@acme.com'', subscriptionTier = Some premium,
     domains = Some [''acme.com''], createdAt = Some ''2025-01-01T00:00:00.000Z'',
     updatedAt = Some ''2025-01-01T00:00:00.000Z''\<rparr>"

definition noTierInput :: customerCreateInput where
  "noTierInput = \<lparr>ci_name = ''To Be Deleted'', ci_company = ''Delete Company'',
     ci_email = None, ci_subscriptionTier = None, ci_domains = None\<rparr>"

definition noTierCustomer :: customer where
  "noTierCustomer = \<lparr>idC = ''9'', name = ''To Be Deleted'', company = ''Delete Company'',
     healthScore = 50, email = None, subscriptionTier = Some basic, domains = Some [],
     createdAt = Some ''2025-01-01T00:00:00.000Z'',
     updatedAt = Some ''2025-01-01T00:00:00.000Z''\<rparr>"

definition john :: customer where
  "john = \<lparr>idC = ''1'', name = ''John Smith'', company = ''Acme Corp'', healthScore = 85,
     email = Some ''john.smith@acmecorp.com'', subscriptionTier = Some premium,
     domains = Some [''acmecorp.com'', ''portal.acmecorp.com''],
     createdAt = Some ''2024-01-15T10:30:00Z'', updatedAt = Some ''2024-01-15T10:30:00Z''\<rparr>"

definition sarah :: customer where
  "sarah = \<lparr>idC = ''2'', name = ''Sarah Johnson'', company = ''TechStart Inc'',
     healthScore = 45, email = Some ''sarah@techstart.io'', subscriptionTier = Some basic,
     domains = Some [''techstart.io''],
     createdAt = Some ''2024-02-20T14:15:00Z'', updatedAt = Some ''2024-02-20T14:15:00Z''\<rparr>"

definition michael :: customer where
  "michael = \<lparr>idC = ''3'', name = ''Michael Brown'', company = ''Global Solutions'',
     healthScore = 15, email = None, subscriptionTier = Some enterprise,
     domains = None, createdAt = None, updatedAt = None\<rparr>"

definition sampleService :: service where
  "sampleService = \<lparr>customers = [john, sarah, michael], nextId = 4\<rparr>"

definition sampleEnv :: environment where
  "sampleEnv = \<lparr>env_sort = arraySort, env_localeCompare = (\<lambda>a b. 0),
     env_getTime = (\<lambda>t. 0)\<rparr>"

definition emptyPatch :: customerUpdateInput where
  "emptyPatch = \<lparr>ui_name = None, ui_company = None, ui_email = None,
     ui_subscriptionTier = None, ui_domains = None, ui_healthScore = None\<rparr>"




definition elevenDomainsInput :: customerCreateInput where
  "elevenDomainsInput = \<lparr>ci_name = ''Test User'', ci_company = ''Test Company'',
     ci_email = None, ci_subscriptionTier = None, ci_domains = Some (replicate 11 ''example.com'')\<rparr>"

definition longEmailInput :: customerCreateInput where
  "longEmailInput = \<lparr>ci_name = ''Test User'', ci_company = ''Test Company'',
     ci_email = Some (replicate 250 CHR ''a'' @ ''@b.co''), ci_subscriptionTier = None,
     ci_domains = None\<rparr>"

definition invalidEmailInput :: customerCreateInput where
  "invalidEmailInput = \<lparr>ci_name = ''Test User'', ci_company = ''Test Company'',
     ci_email = Some ''invalid-email'', ci_subscriptionTier = None, ci_domains = None\<rparr>"

definition duplicateInput :: customerCreateInput where
  "duplicateInput = \<lparr>ci_name = ''Another User'', ci_company = ''Another Company'',
     ci_email = Some ''john.smith@acmecorp.com'', ci_subscriptionTier = None,
     ci_domains = None\<rparr>"

definition tierPatch :: customerUpdateInput where
  \<comment> \<open>a patch with a tier and an explicit health score\<close>
  "tierPatch = emptyPatch\<lparr>ui_subscriptionTier := Some basic, ui_healthScore := Some 12\<rparr>"

definition johnBasic :: customer where
  "johnBasic = john\<lparr>subscriptionTier := Some basic, healthScore := 80,
     updatedAt := Some ''2025-01-01T00:00:00.000Z''\<rparr>"

definition noOptions :: listOptions where
  "noOptions = \<lparr>o_subscriptionTier = None, healthScoreMin = None, healthScoreMax = None,
     o_company = None, searchTerm = None, page = None, limit = None, sortBy = None,
     sortOrder = None\<rparr>"

definition byScoreOptions :: listOptions where
  \<comment> \<open>two per page, lowest health score first\<close>
  "byScoreOptions = noOptions\<lparr>limit := Some 2, sortBy := Some KeyHealthScore,
     sortOrder := Some asc\<rparr>"

definition negativeLimitOptions :: listOptions where
  "negativeLimitOptions = noOptions\<lparr>limit := Some (- 1)\<rparr>"

definition mixedCaseInput :: customerCreateInput where
  "mixedCaseInput = \<lparr>ci_name = ''Another User'', ci_company = ''Another Company'',
     ci_email = Some ''John.Smith@AcmeCorp.com'', ci_subscriptionTier = None,
     ci_domains = None\<rparr>"

definition paddedInput :: customerCreateInput where
  "paddedInput = \<lparr>ci_name = ''Another User'', ci_company = ''Another Company'',
     ci_email = Some '' john.smith@acmecorp.com'', ci_subscriptionTier = None,
     ci_domains = None\<rparr>"

definition sampleRequests :: "request list" where
  "sampleRequests =
    [CreateCustomer ''2025-01-01T00:00:00.000Z'' janeInput,
     CreateCustomer ''2025-01-02T00:00:00.000Z'' duplicateInput,
     UpdateCustomer ''2025-01-03T00:00:00.000Z'' 1735862400000 ''2''
       (emptyPatch\<lparr>ui_email := Some ''jane@acme.com''\<rparr>),
     UpdateCustomer ''2025-01-03T00:00:00.000Z'' 1735862400000 ''3''
       (emptyPatch\<lparr>ui_email := Some ''michael@global.com''\<rparr>),
     DeleteCustomer ''1'',
     CreateCustomer ''2025-01-04T00:00:00.000Z'' duplicateInput]"

definition emma :: customer where
  \<comment> \<open>a customer with the same health score as another one\<close>
  "emma = \<lparr>idC = ''4'', name = ''Emma Wilson'', company = ''Acme Corp'', healthScore = 45,
     email = Some ''emma@acmecorp.com'', subscriptionTier = Some premium,
     domains = Some [], createdAt = Some ''2024-03-01T09:00:00Z'',
     updatedAt = Some ''2024-03-01T09:00:00Z''\<rparr>"

definition tieService :: service where
  "tieService = \<lparr>customers = [john, sarah, michael, emma], nextId = 5\<rparr>"

definition byLength :: "string \<Rightarrow> string \<Rightarrow> int" where
  \<comment> \<open>a consistent ordering of strings, standing in for \<open>localeCompare\<close>: shorter first\<close>
  "byLength x y = int (length x) - int (length y)"

definition byNameOptions :: listOptions where
  "byNameOptions = noOptions\<lparr>sortBy := Some KeyName, sortOrder := Some desc\<rparr>"

section \<open>Creation\<close>

lemma createCustomer_Inr:
  assumes "createCustomer now input s = (Inr c, s')"
  shows "validateCustomerInput input = None"
    and "c = \<lparr> idC = toString (nextId s), name = trim (ci_name input),
                 company = trim (ci_company input),
                 healthScore = calculateInitialHealthScore input,
                 email = map_option trim (ci_email input),
                 subscriptionTier =
                   (case ci_subscriptionTier input of None \<Rightarrow> Some basic | Some t \<Rightarrow> Some t),
                 domains = (case ci_domains input of None \<Rightarrow> Some [] | Some ds \<Rightarrow> Some ds),
                 createdAt = Some now,
                 updatedAt = Some now \<rparr>"
    and "s' = s\<lparr>customers := customers s @ [c], nextId := nextId s + 1\<rparr>"
  using assms
  by (auto simp: createCustomer_def Let_def split: option.splits if_splits)

lemma initial_score_spec:
  "calculateInitialHealthScore input =
     of_int (specInitialScore (ci_subscriptionTier input)
               (case ci_domains input of None \<Rightarrow> [] | Some ds \<Rightarrow> ds) (ci_email input))"
proof -
  define D where "D = (case ci_domains input of None \<Rightarrow> [] | Some ds \<Rightarrow> ds)"
  have t: "specTierBonus t = of_int (tierBonus t)" for t
    by (simp add: specTierBonus_def tierBonus_def split: option.splits tier.splits)
  have d: "min (5 * of_nat (length D)) 20 = (of_int (domainBonus (ci_domains input)) :: rat)"
    by (simp add: D_def domainBonus_def of_int_min mult.commute split: option.splits)
  have e: "(if truthy (ci_email input) then 10 else 0) = (of_int (emailBonus (ci_email input)) :: rat)"
    by (simp add: emailBonus_def)
  have "50 + specTierBonus (ci_subscriptionTier input) + min (5 * of_nat (length D)) 20
          + (if truthy (ci_email input) then 10 else 0)
        = (of_int (50 + tierBonus (ci_subscriptionTier input) + domainBonus (ci_domains input)
             + emailBonus (ci_email input)) :: rat)"
    unfolding t d e by simp
  then have "specInitialScore (ci_subscriptionTier input) D (ci_email input)
        = specClamp (50 + tierBonus (ci_subscriptionTier input) + domainBonus (ci_domains input)
             + emailBonus (ci_email input)) 0 100"
    unfolding specInitialScore_def by (simp only: round_of_int)
  then show ?thesis
    unfolding D_def calculateInitialHealthScore_def Let_def specClamp_def
    by (simp add: min.commute max.commute)
qed

lemma createCustomer_succeeds:
  assumes "validateCustomerInput input = None"
    and "\<not> (truthy (ci_email input) \<and> (\<exists>c \<in> set (customers s). email c = ci_email input))"
  shows "\<exists>c s'. createCustomer now input s = (Inr c, s')"
  using assms by (simp add: createCustomer_def Let_def)

section \<open>Trimming and lower-casing commute\<close>

lemma isWhiteSpace_toLowerChar: "isWhiteSpace (toLowerChar c) = isWhiteSpace c"
  by (auto simp: isWhiteSpace_def toLowerChar_def isUpper_def Let_def)

lemma dropWhile_toLowerCase:
  "dropWhile isWhiteSpace (toLowerCase s) = toLowerCase (dropWhile isWhiteSpace s)"
  by (induction s) (simp_all add: toLowerCase_def isWhiteSpace_toLowerChar)

lemma trim_toLowerCase: "trim (toLowerCase s) = toLowerCase (trim s)"
proof -
  have r: "rev (toLowerCase s) = toLowerCase (rev s)" for s
    by (simp add: toLowerCase_def rev_map)
  show ?thesis
    by (simp add: trim_def dropWhile_toLowerCase r)
qed

lemma trim_Nil: "trim [] = []"
  by (simp add: trim_def)

lemma matchesTerm_spec: "matchesTerm (toLowerCase t) c = specSearchMatch t c"
  by (simp add: matchesTerm_def specSearchMatch_def specContainsCI_def split: option.splits)

section \<open>Counting\<close>




section \<open>Validation of a create input\<close>

lemma validateCustomerInput_violation:
  "validateCustomerInput input = (if specCreateViolation input then Some ValidationError else None)"
  by (auto simp: validateCustomerInput_def specCreateViolation_def trim_Nil list_ex_iff
           split: option.splits)

section \<open>Update\<close>

lemma findIndex_Some:
  "findIndex p xs = Some k \<Longrightarrow> k < length xs \<and> p (xs ! k) \<and> (\<forall>j < k. \<not> p (xs ! j))"
proof (induction xs arbitrary: k)
  case Nil
  then show ?case by simp
next
  case (Cons x xs)
  show ?case
  proof (cases "p x")
    case True
    with Cons.prems show ?thesis by simp
  next
    case False
    with Cons.prems obtain k' where k': "findIndex p xs = Some k'" "k = Suc k'"
      by auto
    from Cons.IH [OF k'(1)] False k'(2) show ?thesis
      by (auto simp: nth_Cons split: nat.splits)
  qed
qed

lemma findIndex_None: "findIndex p xs = None \<longleftrightarrow> (\<forall>x \<in> set xs. \<not> p x)"
  by (induction xs) auto

lemma recomputed_score_spec:
  "calculateHealthScore getTime nowMs c =
     of_int (specRecomputedScore (subscriptionTier c)
               (case domains c of None \<Rightarrow> [] | Some ds \<Rightarrow> ds) (email c)
               (specDaysSince getTime nowMs (createdAt c)))"
proof -
  define D where "D = (case domains c of None \<Rightarrow> [] | Some ds \<Rightarrow> ds)"
  have t: "specTierBonus t = of_int (tierBonus t)" for t
    by (simp add: specTierBonus_def tierBonus_def split: option.splits tier.splits)
  have d: "min (5 * of_nat (length D)) 20 = (of_int (domainBonus (domains c)) :: rat)"
    by (simp add: D_def domainBonus_def of_int_min mult.commute split: option.splits)
  have e: "(if truthy (email c) then 10 else 0) = (of_int (emailBonus (email c)) :: rat)"
    by (simp add: emailBonus_def)
  have a: "(case specDaysSince getTime nowMs (createdAt c) of None \<Rightarrow> 0
            | Some d \<Rightarrow> min (d / 10) 15) = ageBonus getTime nowMs (createdAt c)"
    by (simp add: specDaysSince_def ageBonus_def Let_def)
  have "50 + specTierBonus (subscriptionTier c) + min (5 * of_nat (length D)) 20
          + (if truthy (email c) then 10 else 0)
          + (case specDaysSince getTime nowMs (createdAt c) of None \<Rightarrow> 0
             | Some d \<Rightarrow> min (d / 10) 15)
        = of_int (50 + tierBonus (subscriptionTier c) + domainBonus (domains c)
             + emailBonus (email c)) + ageBonus getTime nowMs (createdAt c)"
    unfolding t d e a by simp
  then have "specRecomputedScore (subscriptionTier c) D (email c)
               (specDaysSince getTime nowMs (createdAt c))
        = specClamp (mathRound (of_int (50 + tierBonus (subscriptionTier c)
             + domainBonus (domains c) + emailBonus (email c))
             + ageBonus getTime nowMs (createdAt c))) 0 100"
    unfolding specRecomputedScore_def mathRound_def round_def by simp
  then show ?thesis
    unfolding D_def calculateHealthScore_def Let_def specClamp_def
    by (simp add: min.commute max.commute)
qed

lemma calculateHealthScore_ignores_score:
  "calculateHealthScore getTime nowMs (c\<lparr>healthScore := h\<rparr>) = calculateHealthScore getTime nowMs c"
  by (simp add: calculateHealthScore_def)

lemma merged_fields:
  "subscriptionTier (trimInput input (mergeInput now input old)) =
     (case ui_subscriptionTier input of None \<Rightarrow> subscriptionTier old | Some t \<Rightarrow> Some t)"
  "domains (trimInput input (mergeInput now input old)) =
     (case ui_domains input of None \<Rightarrow> domains old | Some ds \<Rightarrow> Some ds)"
  "email (trimInput input (mergeInput now input old)) =
     (case ui_email input of None \<Rightarrow> email old | Some e \<Rightarrow> Some (trim e))"
  "createdAt (trimInput input (mergeInput now input old)) = createdAt old"
  "idC (trimInput input (mergeInput now input old)) = idC old"
  by (auto simp: trimInput_def mergeInput_def Let_def truthy_def trim_Nil split: option.splits)

lemma recalculated_fields:
  "subscriptionTier (recalculate g n input c) = subscriptionTier c"
  "domains (recalculate g n input c) = domains c"
  "email (recalculate g n input c) = email c"
  "createdAt (recalculate g n input c) = createdAt c"
  "idC (recalculate g n input c) = idC c"
  by (simp_all add: recalculate_def)

lemma updateCustomer_Inr:
  assumes "updateCustomer getTime now nowMs i input s = (Inr c', s')"
  shows "\<exists>k. findIndex (\<lambda>c. idC c = i) (customers s) = Some k \<and>
           \<not> blankId i \<and>
           validateCustomerUpdateInput input = None \<and>
           \<not> (truthy (ui_email input) \<and>
               (\<exists>c \<in> set (customers s). idC c \<noteq> i \<and> email c = ui_email input)) \<and>
           c' = recalculate getTime nowMs input
                  (trimInput input (mergeInput now input (customers s ! k))) \<and>
           s' = s\<lparr>customers := (customers s)[k := c']\<rparr>"
  using assms
  by (auto simp: updateCustomer_def Let_def split: option.splits if_splits)

lemma trimInput_score:
  "trimInput (input\<lparr>ui_healthScore := h\<rparr>) c = trimInput input c"
  "trimInput input (c\<lparr>healthScore := x\<rparr>) = (trimInput input c)\<lparr>healthScore := x\<rparr>"
  by (simp_all add: trimInput_def Let_def)

lemma mergeInput_score:
  "mergeInput now (input\<lparr>ui_healthScore := h\<rparr>) old =
     (mergeInput now input old)\<lparr>healthScore := (case h of None \<Rightarrow> healthScore old | Some v \<Rightarrow> v)\<rparr>"
  by (simp add: mergeInput_def)

lemma score_overridden:
  assumes "ui_subscriptionTier input \<noteq> None \<or> ui_domains input \<noteq> None"
  shows "recalculate g n (input\<lparr>ui_healthScore := h\<rparr>)
           (trimInput (input\<lparr>ui_healthScore := h\<rparr>)
              (mergeInput now (input\<lparr>ui_healthScore := h\<rparr>) old))
         = recalculate g n input (trimInput input (mergeInput now input old))"
proof -
  have "recalculate g n (input\<lparr>ui_healthScore := h\<rparr>) (c\<lparr>healthScore := x\<rparr>)
        = recalculate g n input c" for c x
    using assms by (simp add: recalculate_def calculateHealthScore_ignores_score)
  then show ?thesis
    by (simp only: trimInput_score mergeInput_score)
qed

lemma validate_update_score:
  assumes "validateCustomerUpdateInput input = None" and "\<forall>x. h = Some x \<longrightarrow> 0 \<le> x \<and> x \<le> 100"
  shows "validateCustomerUpdateInput (input\<lparr>ui_healthScore := h\<rparr>) = None"
proof -
  have "\<not> (case h of None \<Rightarrow> False | Some x \<Rightarrow> x < 0 \<or> x > 100)"
    using assms(2) by (cases h) auto
  moreover have "validateCustomerUpdateInput input = None \<longleftrightarrow>
      \<not> (case ui_name input of None \<Rightarrow> False | Some n \<Rightarrow> n = [] \<or> trim n = []) \<and>
      \<not> (case ui_company input of None \<Rightarrow> False | Some c \<Rightarrow> c = [] \<or> trim c = []) \<and>
      \<not> (truthy (ui_name input) \<and> length (trim (the (ui_name input))) > 100) \<and>
      \<not> (truthy (ui_company input) \<and> length (trim (the (ui_company input))) > 100) \<and>
      \<not> (truthy (ui_email input) \<and> \<not> isValidEmail (the (ui_email input))) \<and>
      \<not> (case ui_healthScore input of None \<Rightarrow> False | Some h \<Rightarrow> h < 0 \<or> h > 100) \<and>
      \<not> (case ui_domains input of None \<Rightarrow> False
           | Some ds \<Rightarrow> \<exists>d \<in> set ds. \<not> isValidDomain d)" for input
    unfolding validateCustomerUpdateInput_def by simp
  ultimately show ?thesis using assms(1) by simp
qed

lemma updateCustomer_succeeds:
  assumes "\<not> blankId i" and "\<exists>c \<in> set (customers s). idC c = i"
    and "validateCustomerUpdateInput input = None"
    and "\<not> (truthy (ui_email input) \<and>
            (\<exists>c \<in> set (customers s). idC c \<noteq> i \<and> email c = ui_email input))"
  shows "\<exists>c' s'. updateCustomer getTime now nowMs i input s = (Inr c', s')"
proof -
  from assms(2) have "findIndex (\<lambda>c. idC c = i) (customers s) \<noteq> None"
    by (simp add: findIndex_None)
  then obtain k where "findIndex (\<lambda>c. idC c = i) (customers s) = Some k" by blast
  with assms(1,3,4) show ?thesis
    by (simp add: updateCustomer_def Let_def)
qed

lemma recompute_on_update:
  assumes "updateCustomer getTime now nowMs i input s = (Inr c', s')"
    and "ui_subscriptionTier input \<noteq> None \<or> ui_domains input \<noteq> None"
  shows "\<exists>k. findIndex (\<lambda>c. idC c = i) (customers s) = Some k \<and> k < length (customers s) \<and>
          (let old = customers s ! k;
               T = (case ui_subscriptionTier input of None \<Rightarrow> subscriptionTier old
                      | Some t \<Rightarrow> Some t);
               D = (case ui_domains input of None \<Rightarrow> domains old | Some ds \<Rightarrow> Some ds);
               E = (case ui_email input of None \<Rightarrow> email old | Some e \<Rightarrow> Some (trim e))
           in idC old = i \<and> subscriptionTier c' = T \<and> domains c' = D \<and> email c' = E \<and>
              healthScore c' =
                of_int (specRecomputedScore T (case D of None \<Rightarrow> [] | Some ds \<Rightarrow> ds) E
                          (specDaysSince getTime nowMs (createdAt old)))) \<and>
          s' = s\<lparr>customers := (customers s)[k := c']\<rparr> \<and>
          (\<forall>h. (\<forall>x. h = Some x \<longrightarrow> 0 \<le> x \<and> x \<le> 100) \<longrightarrow>
               updateCustomer getTime now nowMs i (input\<lparr>ui_healthScore := h\<rparr>) s = (Inr c', s'))"
proof -
  from updateCustomer_Inr [OF assms(1)] obtain k where
    k: "findIndex (\<lambda>c. idC c = i) (customers s) = Some k"
    and nb: "\<not> blankId i"
    and v: "validateCustomerUpdateInput input = None"
    and nd: "\<not> (truthy (ui_email input) \<and>
               (\<exists>c \<in> set (customers s). idC c \<noteq> i \<and> email c = ui_email input))"
    and c': "c' = recalculate getTime nowMs input
                  (trimInput input (mergeInput now input (customers s ! k)))"
    and s': "s' = s\<lparr>customers := (customers s)[k := c']\<rparr>"
    by blast
  let ?old = "customers s ! k"
  let ?m = "trimInput input (mergeInput now input ?old)"
  note fi = findIndex_Some [OF k]
  have hs: "healthScore c' = calculateHealthScore getTime nowMs ?m"
    using assms(2) c' by (auto simp: recalculate_def)
  have sc: "healthScore c' =
      of_int (specRecomputedScore (subscriptionTier ?m)
               (case domains ?m of None \<Rightarrow> [] | Some ds \<Rightarrow> ds) (email ?m)
               (specDaysSince getTime nowMs (createdAt ?m)))"
    unfolding hs by (rule recomputed_score_spec)
  have fields: "subscriptionTier c' = subscriptionTier ?m" "domains c' = domains ?m"
    "email c' = email ?m"
    unfolding c' by (simp_all add: recalculated_fields)
  have over: "updateCustomer getTime now nowMs i (input\<lparr>ui_healthScore := h\<rparr>) s = (Inr c', s')"
    if h: "\<forall>x. h = Some x \<longrightarrow> 0 \<le> x \<and> x \<le> 100" for h
  proof -
    have "validateCustomerUpdateInput (input\<lparr>ui_healthScore := h\<rparr>) = None"
      by (rule validate_update_score [OF v h])
    then show ?thesis
      using k nb nd c' s' score_overridden [OF assms(2), of getTime nowMs h now ?old]
      by (simp add: updateCustomer_def Let_def)
  qed
  show ?thesis
    apply (rule exI [of _ k])
    using k fi sc fields s' over
    by (simp add: Let_def merged_fields)
qed

section \<open>Listing\<close>

lemma mset_insertBy: "mset (insertBy cmp x ys) = add_mset x (mset ys)"
  by (induction ys) simp_all

lemma arraySort_Cons: "arraySort cmp (x # xs) = insertBy cmp x (arraySort cmp xs)"
  by (simp add: arraySort_def)

lemma mset_arraySort: "mset (arraySort cmp xs) = mset xs"
  by (induction xs) (simp_all add: arraySort_Cons mset_insertBy, simp add: arraySort_def)

lemma set_arraySort: "set (arraySort cmp xs) = set xs"
  using mset_arraySort [of cmp xs] by (metis set_mset_mset)

lemma set_insertBy: "set (insertBy cmp x ys) = insert x (set ys)"
  using mset_insertBy [of cmp x ys] by (metis set_mset_mset set_mset_add_mset_insert)

lemma consistentOn_subset: "consistentOn cmp S \<Longrightarrow> T \<subseteq> S \<Longrightarrow> consistentOn cmp T"
  unfolding consistentOn_def by blast

lemma sorted_insertBy:
  assumes "consistentOn cmp S" and "x \<in> S" and "set ys \<subseteq> S"
    and "sorted_wrt (\<lambda>a b. cmp a b \<le> 0) ys"
  shows "sorted_wrt (\<lambda>a b. cmp a b \<le> 0) (insertBy cmp x ys)"
  using assms(3,4)
proof (induction ys)
  case Nil
  then show ?case by simp
next
  case (Cons y ys)
  have anti: "(cmp x y < 0) = (0 < cmp y x)" "(cmp y x < 0) = (0 < cmp x y)"
    using assms(1,2) Cons.prems(1) by (auto simp: consistentOn_def)
  show ?case
  proof (cases "cmp x y \<le> 0")
    case True
    have "cmp x z \<le> 0" if "z \<in> set ys" for z
    proof -
      have "cmp y z \<le> 0" using Cons.prems(2) that by simp
      with True show ?thesis
        using assms(1,2) Cons.prems(1) that unfolding consistentOn_def
        by (meson list.set_intros(1) list.set_intros(2) subsetD)
    qed
    with True Cons.prems(2) show ?thesis by simp
  next
    case False
    then have "cmp y x \<le> 0" using anti by simp
    moreover have "sorted_wrt (\<lambda>a b. cmp a b \<le> 0) (insertBy cmp x ys)"
      using Cons by simp
    ultimately show ?thesis
      using False Cons.prems(2) by (auto simp: set_insertBy)
  qed
qed

lemma sorted_arraySort:
  assumes "consistentOn cmp S" and "set xs \<subseteq> S"
  shows "sorted_wrt (\<lambda>a b. cmp a b \<le> 0) (arraySort cmp xs)"
  using assms(2)
proof (induction xs)
  case Nil
  then show ?case by (simp add: arraySort_def)
next
  case (Cons x xs)
  then have "sorted_wrt (\<lambda>a b. cmp a b \<le> 0) (arraySort cmp xs)" by simp
  with Cons.prems show ?case
    by (simp add: arraySort_Cons sorted_insertBy [OF assms(1)] set_arraySort)
qed

lemma stable_insertBy:
  assumes "consistentOn cmp S" and "x \<in> S" and "set ys \<subseteq> S" and "z \<in> S"
  shows "filter (\<lambda>y. cmp z y = 0) (insertBy cmp x ys) = filter (\<lambda>y. cmp z y = 0) (x # ys)"
  using assms(3)
proof (induction ys)
  case Nil
  then show ?case by simp
next
  case (Cons y ys)
  show ?case
  proof (cases "cmp x y \<le> 0")
    case True
    then show ?thesis by simp
  next
    case False
    have "\<not> (cmp z x = 0 \<and> cmp z y = 0)"
    proof
      assume e: "cmp z x = 0 \<and> cmp z y = 0"
      have "(cmp x z < 0) = (0 < cmp z x)" "(cmp z x < 0) = (0 < cmp x z)"
        using assms(1,2,4) by (auto simp: consistentOn_def)
      with e have "cmp x z \<le> 0" by simp
      moreover have "cmp z y \<le> 0" using e by simp
      ultimately have "cmp x y \<le> 0"
        using assms(1,2,4) Cons.prems unfolding consistentOn_def
        by (meson list.set_intros(1) subsetD)
      with False show False by simp
    qed
    moreover have "filter (\<lambda>y. cmp z y = 0) (insertBy cmp x ys)
                   = filter (\<lambda>y. cmp z y = 0) (x # ys)"
      using Cons by simp
    ultimately show ?thesis using False by auto
  qed
qed

lemma stable_arraySort:
  assumes "consistentOn cmp S" and "set xs \<subseteq> S" and "z \<in> S"
  shows "filter (\<lambda>y. cmp z y = 0) (arraySort cmp xs) = filter (\<lambda>y. cmp z y = 0) xs"
  using assms(2)
proof (induction xs)
  case Nil
  then show ?case by (simp add: arraySort_def)
next
  case (Cons x xs)
  then have "filter (\<lambda>y. cmp z y = 0) (arraySort cmp xs) = filter (\<lambda>y. cmp z y = 0) xs"
    by simp
  moreover have "filter (\<lambda>y. cmp z y = 0) (insertBy cmp x (arraySort cmp xs))
                 = filter (\<lambda>y. cmp z y = 0) (x # arraySort cmp xs)"
    using Cons.prems by (intro stable_insertBy [OF assms(1) _ _ assms(3)]) (simp_all add: set_arraySort)
  ultimately show ?case by (simp add: arraySort_Cons)
qed

lemma sortsStably_arraySort: "sortsStably arraySort"
  unfolding sortsStably_def
  by (auto simp: mset_arraySort intro: sorted_arraySort stable_arraySort)

lemma consistent_healthScore:
  "consistentOn (compareCustomers lc KeyHealthScore order) S"
  by (auto simp: consistentOn_def compareCustomers_def field_def Let_def
                 mult_less_0_iff zero_less_mult_iff mult_le_0_iff)

lemma consistent_string_key:
  assumes "consistentOn (\<lambda>x y. of_int (lc x y)) X"
    and "\<forall>c \<in> S. \<exists>x \<in> X. field k c = Str x"
  shows "consistentOn (compareCustomers lc k order) S"
proof -
  have anti: "(lc x y < 0) = (0 < lc y x)" if "x \<in> X" "y \<in> X" for x y
    using assms(1) that by (auto simp: consistentOn_def)
  have trans: "lc x z \<le> 0" if "x \<in> X" "y \<in> X" "z \<in> X" "lc x y \<le> 0" "lc y z \<le> 0" for x y z
    using assms(1) that unfolding consistentOn_def by (metis of_int_le_0_iff)
  have rev: "lc z x \<le> 0" if "x \<in> X" "y \<in> X" "z \<in> X" "0 \<le> lc x y" "0 \<le> lc y z" for x y z
  proof -
    have "lc y x \<le> 0" "lc z y \<le> 0"
      using anti [of x y] anti [of y x] anti [of y z] anti [of z y] that by linarith+
    then show ?thesis using trans [of z y x] that by simp
  qed
  have revd: "0 \<le> lc x z" if "x \<in> X" "y \<in> X" "z \<in> X" "0 \<le> lc x y" "0 \<le> lc y z" for x y z
    using rev [OF that] anti [of x z] anti [of z x] that by linarith
  show ?thesis
    unfolding consistentOn_def
  proof (intro conjI ballI impI)
    fix a b assume "a \<in> S" "b \<in> S"
    then obtain x y where "x \<in> X" "y \<in> X" "field k a = Str x" "field k b = Str y"
      using assms(2) by blast
    then show "(compareCustomers lc k order a b < 0) = (0 < compareCustomers lc k order b a)"
      using anti [of x y] anti [of y x]
      by (auto simp: compareCustomers_def Let_def mult_less_0_iff zero_less_mult_iff)
  next
    fix a b c
    assume "a \<in> S" "b \<in> S" "c \<in> S"
      and le: "compareCustomers lc k order a b \<le> 0 \<and> compareCustomers lc k order b c \<le> 0"
    then obtain x y z where xyz: "x \<in> X" "y \<in> X" "z \<in> X"
      and f: "field k a = Str x" "field k b = Str y" "field k c = Str z"
      using assms(2) by blast
    show "compareCustomers lc k order a c \<le> 0"
    proof (cases "order = Some desc")
      case True
      with le f have "0 \<le> lc x y" "0 \<le> lc y z"
        by (simp_all add: compareCustomers_def Let_def)
      from revd [OF xyz this] True f show ?thesis
        by (simp add: compareCustomers_def Let_def)
    next
      case False
      with le f have "lc x y \<le> 0" "lc y z \<le> 0"
        by (simp_all add: compareCustomers_def Let_def)
      from trans [OF xyz this] False f show ?thesis
        by (simp add: compareCustomers_def Let_def)
    qed
  qed
qed

lemma mset_applySorting:
  "sortsStably sortFn \<Longrightarrow> mset (applySorting sortFn lc options cs) = mset cs"
  by (simp add: applySorting_def sortsStably_def split: option.splits)

lemma applyFilters_spec: "applyFilters options cs = filter (specFilterMatch options) cs"
proof -
  have m: "matchesTerm (toLowerCase t) = specSearchMatch t" for t
    by (rule ext) (rule matchesTerm_spec)
  show ?thesis
    unfolding applyFilters_def Let_def specFilterMatch_def specContainsCI_def [symmetric] m
    by (simp split: option.splits add: conj_commute conj_left_commute cong: conj_cong)
qed

lemma slice_from_start:
  assumes "0 \<le> a" and "0 \<le> l"
  shows "slice xs a (a + l) = take (nat l) (drop (nat a) xs)"
proof -
  let ?len = "int (length xs)"
  have s: "slice xs a (a + l) = take (nat (min (a + l) ?len - min a ?len)) (drop (nat (min a ?len)) xs)"
    using assms by (simp add: slice_def Let_def)
  show ?thesis
  proof (cases "a \<le> ?len")
    case False
    then have "min a ?len = ?len" "length xs \<le> nat a" by simp_all
    then show ?thesis unfolding s by simp
  next
    case True
    then have k: "min a ?len = a" by simp
    show ?thesis
    proof (cases "a + l \<le> ?len")
      case True
      then have "min (a + l) ?len - a = l" by simp
      then show ?thesis unfolding s k by simp
    next
      case False
      then have "min (a + l) ?len - a = ?len - a" by simp
      moreover have "length (drop (nat a) xs) \<le> nat (?len - a)"
        "length (drop (nat a) xs) \<le> nat l"
        using False assms by simp_all
      ultimately show ?thesis unfolding s k by simp
    qed
  qed
qed

lemma length_slice_le:
  assumes "0 \<le> l"
  shows "int (length (slice xs a (a + l))) \<le> l"
  using assms by (auto simp: slice_def Let_def)

lemma concat_chunks:
  "concat (map (\<lambda>q. take l (drop (q * l) xs)) [0..<k]) = take (k * l) xs"
proof (induction k)
  case 0
  then show ?case by simp
next
  case (Suc k)
  have "take (l + k * l) xs = take (k * l + l) xs"
    by (simp only: add.commute)
  also have "\<dots> = take (k * l) xs @ take l (drop (k * l) xs)"
    by (rule take_add)
  finally show ?case using Suc by simp
qed

lemma upto_as_nats: "[1..int k] = map (\<lambda>q. int q + 1) [0..<k]"
proof (induction k)
  case 0
  then show ?case by simp
next
  case (Suc k)
  have "[1..int (Suc k)] = [1..int k] @ [int k + 1]"
    by (simp add: upto_rec2 add.commute)
  with Suc show ?case by simp
qed

lemma pages_cover:
  fixes l :: int
  assumes "0 < l"
  shows "length xs \<le> nat \<lceil>(of_nat (length xs) :: rat) / of_int l\<rceil> * nat l"
proof -
  define k where "k = \<lceil>(of_nat (length xs) :: rat) / of_int l\<rceil>"
  have pos: "(0 :: rat) < of_int l" using assms by simp
  have "(of_nat (length xs) :: rat) / of_int l \<le> of_int k"
    unfolding k_def by (rule le_of_int_ceiling)
  with pos have "(of_nat (length xs) :: rat) \<le> of_int k * of_int l"
    by (simp only: pos_divide_le_eq)
  then have "(of_int (int (length xs)) :: rat) \<le> of_int (k * l)"
    by simp
  then have le: "int (length xs) \<le> k * l"
    by (simp only: of_int_le_iff)
  have "(0 :: rat) \<le> of_nat (length xs) / of_int l" using pos by simp
  then have k0: "0 \<le> k" unfolding k_def by (simp only: zero_le_ceiling)
  have "int (nat k * nat l) = k * l" using k0 assms by simp
  with le have "int (length xs) \<le> int (nat k * nat l)" by simp
  then show ?thesis unfolding k_def by (simp only: of_nat_le_iff)
qed

lemma getCustomers_page:
  "getCustomers sortFn lc options s =
     Inr \<lparr> data = slice (applySorting sortFn lc options (applyFilters options (customers s)))
                     ((orDefault (page options) 1 - 1) * orDefault (limit options) 10)
                     ((orDefault (page options) 1 - 1) * orDefault (limit options) 10
                        + orDefault (limit options) 10),
            pagination = \<lparr>
              p_page = orDefault (page options) 1,
              p_limit = orDefault (limit options) 10,
              p_total = length (applySorting sortFn lc options (applyFilters options (customers s))),
              totalPages =
                \<lceil>(of_nat (length (applySorting sortFn lc options (applyFilters options (customers s))))
                    :: rat) / of_int (orDefault (limit options) 10)\<rceil> \<rparr> \<rparr>"
  by (simp add: getCustomers_def Let_def)

lemma pipeline_ignores_page:
  "applySorting sortFn lc (options\<lparr>page := p\<rparr>) (applyFilters (options\<lparr>page := p\<rparr>) cs)
     = applySorting sortFn lc options (applyFilters options cs)"
  by (simp add: applySorting_def applyFilters_def Let_def cong: if_cong option.case_cong)

lemma page_data:
  assumes "0 < orDefault (limit options) 10"
  shows "data (projr (getCustomers sortFn lc (options\<lparr>page := Some (int j + 1)\<rparr>) s))
         = take (nat (orDefault (limit options) 10))
             (drop (j * nat (orDefault (limit options) 10))
                (applySorting sortFn lc options (applyFilters options (customers s))))"
proof -
  let ?l = "orDefault (limit options) 10"
  have p: "orDefault (Some (int j + 1)) 1 = int j + 1"
    by (simp add: orDefault_def)
  have n: "nat (int j * ?l) = j * nat ?l"
    using assms by (simp add: nat_mult_distrib)
  have "0 \<le> int j * ?l" "0 \<le> ?l" using assms by simp_all
  from slice_from_start [OF this] n show ?thesis
    by (simp add: getCustomers_page pipeline_ignores_page p)
qed

lemma all_pages:
  assumes "0 < orDefault (limit options) 10"
  shows "concat (map (\<lambda>q. data (projr (getCustomers sortFn lc (options\<lparr>page := Some q\<rparr>) s)))
           [1..\<lceil>(of_nat (length (applySorting sortFn lc options (applyFilters options (customers s))))
                 :: rat) / of_int (orDefault (limit options) 10)\<rceil>])
         = applySorting sortFn lc options (applyFilters options (customers s))"
proof -
  let ?l = "orDefault (limit options) 10"
  let ?xs = "applySorting sortFn lc options (applyFilters options (customers s))"
  define k where "k = nat \<lceil>(of_nat (length ?xs) :: rat) / of_int ?l\<rceil>"
  have "(0 :: rat) \<le> of_nat (length ?xs) / of_int ?l" using assms by simp
  then have "0 \<le> \<lceil>(of_nat (length ?xs) :: rat) / of_int ?l\<rceil>"
    by (simp only: zero_le_ceiling)
  then have K: "\<lceil>(of_nat (length ?xs) :: rat) / of_int ?l\<rceil> = int k"
    by (simp add: k_def)
  have "concat (map (\<lambda>q. data (projr (getCustomers sortFn lc (options\<lparr>page := Some q\<rparr>) s))) [1..int k])
        = concat (map (\<lambda>j. take (nat ?l) (drop (j * nat ?l) ?xs)) [0..<k])"
    by (simp only: upto_as_nats map_map o_def page_data [OF assms])
  also have "\<dots> = take (k * nat ?l) ?xs" by (rule concat_chunks)
  also have "\<dots> = ?xs"
    using pages_cover [OF assms, of ?xs] by (simp add: k_def)
  finally show ?thesis by (simp only: K)
qed

lemma sorted_by_cmp:
  assumes "sortsStably sortFn" and "sortBy options = Some k"
    and "consistentOn (compareCustomers lc k (sortOrder options)) (set cs)"
  shows "sorted_wrt (\<lambda>a b. compareCustomers lc k (sortOrder options) a b \<le> 0)
           (applySorting sortFn lc options cs)"
    and "\<forall>x \<in> set cs. filter (\<lambda>y. compareCustomers lc k (sortOrder options) x y = 0)
                          (applySorting sortFn lc options cs)
                        = filter (\<lambda>y. compareCustomers lc k (sortOrder options) x y = 0) cs"
  using assms unfolding sortsStably_def applySorting_def by simp_all

lemma compare_healthScore:
  "compareCustomers lc KeyHealthScore order a b \<le> 0 \<longleftrightarrow>
     (if order = Some desc then healthScore b \<le> healthScore a else healthScore a \<le> healthScore b)"
  "compareCustomers lc KeyHealthScore order a b = 0 \<longleftrightarrow> healthScore a = healthScore b"
  by (auto simp: compareCustomers_def field_def Let_def)

lemma sorted_by_healthScore:
  assumes "sortsStably sortFn" and "sortBy options = Some KeyHealthScore"
  shows "sorted_wrt (\<lambda>a b. if sortOrder options = Some desc then healthScore b \<le> healthScore a
                            else healthScore a \<le> healthScore b)
           (applySorting sortFn lc options cs)"
    and "filter (\<lambda>c. healthScore c = h) (applySorting sortFn lc options cs)
         = filter (\<lambda>c. healthScore c = h) cs"
proof -
  note s = sorted_by_cmp [OF assms consistent_healthScore [of lc "sortOrder options" "set cs"]]
  from s(1) show "sorted_wrt (\<lambda>a b. if sortOrder options = Some desc
                                      then healthScore b \<le> healthScore a
                                      else healthScore a \<le> healthScore b)
           (applySorting sortFn lc options cs)"
    by (simp add: compare_healthScore)
  have m: "set (applySorting sortFn lc options cs) = set cs"
    using mset_applySorting [OF assms(1), of lc options cs] by (metis set_mset_mset)
  show "filter (\<lambda>c. healthScore c = h) (applySorting sortFn lc options cs)
         = filter (\<lambda>c. healthScore c = h) cs"
  proof (cases "\<exists>x \<in> set cs. healthScore x = h")
    case True
    then obtain x where x: "x \<in> set cs" "healthScore x = h" by blast
    have "filter (\<lambda>y. compareCustomers lc KeyHealthScore (sortOrder options) x y = 0)
            (applySorting sortFn lc options cs)
          = filter (\<lambda>y. compareCustomers lc KeyHealthScore (sortOrder options) x y = 0) cs"
      using s(2) x(1) by blast
    then have e: "filter (\<lambda>y. h = healthScore y) (applySorting sortFn lc options cs)
               = filter (\<lambda>y. h = healthScore y) cs"
      by (simp only: compare_healthScore(2) x(2))
    have f: "filter (\<lambda>y. h = healthScore y) zs = filter (\<lambda>c. healthScore c = h) zs" for zs
      by (rule filter_cong) auto
    from e show ?thesis unfolding f .
  next
    case False
    then have "filter (\<lambda>c. healthScore c = h) cs = []" by (auto simp: filter_empty_conv)
    moreover have "filter (\<lambda>c. healthScore c = h) (applySorting sortFn lc options cs) = []"
      using False m by (auto simp: filter_empty_conv)
    ultimately show ?thesis by simp
  qed
qed

lemma sorted_by_string_key:
  assumes "sortsStably sortFn" and "sortBy options = Some k"
    and "consistentOn (\<lambda>x y. of_int (lc x y)) X"
    and "\<forall>c \<in> set cs. \<exists>x \<in> X. field k c = Str x"
  shows "sorted_wrt (\<lambda>a b. \<exists>x y. field k a = Str x \<and> field k b = Str y \<and>
                        (if sortOrder options = Some desc then 0 \<le> lc x y else lc x y \<le> 0))
           (applySorting sortFn lc options cs)"
proof -
  have c: "consistentOn (compareCustomers lc k (sortOrder options)) (set cs)"
    by (rule consistent_string_key [OF assms(3,4)])
  have m: "set (applySorting sortFn lc options cs) = set cs"
    using mset_applySorting [OF assms(1), of lc options cs] by (metis set_mset_mset)
  have step: "\<exists>x y. field k a = Str x \<and> field k b = Str y \<and>
          (if sortOrder options = Some desc then 0 \<le> lc x y else lc x y \<le> 0)"
    if "a \<in> set (applySorting sortFn lc options cs)"
       "b \<in> set (applySorting sortFn lc options cs)"
       "compareCustomers lc k (sortOrder options) a b \<le> 0" for a b
  proof -
    from that assms(4) m obtain x y where "field k a = Str x" "field k b = Str y" by blast
    with that(3) show ?thesis
      by (auto simp: compareCustomers_def Let_def mult_le_0_iff split: if_splits)
  qed
  show ?thesis
    by (rule sorted_wrt_mono_rel [OF step sorted_by_cmp(1) [OF assms(1,2) c]])
qed

lemma consistent_byLength: "consistentOn (\<lambda>x y. of_int (byLength x y)) X"
  by (auto simp: consistentOn_def byLength_def)

section \<open>Ids and emails stay unique\<close>

lemma digitValue_digit: "d < 10 \<Longrightarrow> digitValue (digit d) = d"
  by (simp add: digitValue_def digit_def)

lemma parseDigits_snoc: "parseDigits (s @ [c]) = 10 * parseDigits s + digitValue c"
  by (simp add: parseDigits_def)

lemma parseDigits_toString: "parseDigits (toString n) = n"
proof (induction n rule: toString.induct)
  case (1 n)
  show ?case
  proof (cases "n < 10")
    case True
    then show ?thesis
      by (subst toString.simps) (simp add: parseDigits_def digitValue_digit)
  next
    case False
    with 1 have "parseDigits (toString (n div 10)) = n div 10" by simp
    with False show ?thesis
      by (subst toString.simps) (simp add: parseDigits_snoc digitValue_digit)
  qed
qed

lemma toString_inject: "toString m = toString n \<Longrightarrow> m = n"
  by (metis parseDigits_toString)

lemma emailsOf_append: "emailsOf (xs @ ys) = emailsOf xs @ emailsOf ys"
  by (simp add: emailsOf_def)

lemma emailsOf_Cons: "emailsOf (c # cs) = emailKey c @ emailsOf cs"
  by (simp add: emailsOf_def)

lemma in_emailsOf: "e \<in> set (emailsOf cs) \<longleftrightarrow> e \<noteq> [] \<and> (\<exists>c \<in> set cs. email c = Some e)"
  by (induction cs) (auto simp: emailsOf_def emailKey_def split: option.splits if_splits)

lemma split_at:
  assumes "k < length cs"
  shows "cs = take k cs @ cs ! k # drop (Suc k) cs"
    and "cs[k := c] = take k cs @ c # drop (Suc k) cs"
  using assms by (simp_all add: id_take_nth_drop [symmetric] upd_conv_take_nth_drop)

lemma others_have_other_ids:
  assumes "distinct (map idC cs)" and "k < length cs"
  shows "\<forall>c \<in> set (take k cs) \<union> set (drop (Suc k) cs). idC c \<noteq> idC (cs ! k)"
proof -
  from assms(1) have "distinct (map idC (take k cs @ cs ! k # drop (Suc k) cs))"
    using split_at(1) [OF assms(2)] by simp
  then show ?thesis by (fastforce simp: image_iff)
qed

lemma create_keeps_wellFormed:
  assumes wf: "wellFormed s" and tr: "case ci_email input of None \<Rightarrow> True | Some e \<Rightarrow> trim e = e"
  shows "wellFormed (snd (createCustomer now input s))"
proof (cases "\<exists>c. fst (createCustomer now input s) = Inr c")
  case False
  then have "snd (createCustomer now input s) = s"
    by (auto simp: createCustomer_def Let_def split: option.splits if_splits)
  with wf show ?thesis by simp
next
  case True
  then obtain c s' where ok: "createCustomer now input s = (Inr c, s')"
    by (cases "createCustomer now input s") auto
  note facts = createCustomer_Inr [OF ok]
  have nd: "\<not> (truthy (ci_email input) \<and> (\<exists>x \<in> set (customers s). email x = ci_email input))"
    using ok by (auto simp: createCustomer_def Let_def split: option.splits if_splits)
  have idc: "idC c = toString (nextId s)" and em: "email c = ci_email input"
    using facts(2) tr by (auto split: option.splits)
  from wf have below: "\<forall>x \<in> set (customers s). numberedBelow (nextId s) x"
    by (simp add: wellFormed_def list_all_iff)
  have fresh: "idC c \<notin> set (map idC (customers s))"
  proof
    assume "idC c \<in> set (map idC (customers s))"
    then obtain x where x: "x \<in> set (customers s)" "idC x = toString (nextId s)"
      using idc by auto
    with below have "parseDigits (toString (nextId s)) < nextId s"
      by (auto simp: numberedBelow_def)
    then show False by (simp add: parseDigits_toString)
  qed
  have ids: "distinct (map idC (customers s @ [c]))"
    using wf fresh by (simp add: wellFormed_def)
  have num: "list_all (numberedBelow (nextId s + 1)) (customers s @ [c])"
    using below idc by (auto simp: list_all_iff numberedBelow_def parseDigits_toString)
  have "set (emailKey c) \<inter> set (emailsOf (customers s)) = {}"
    using nd em by (auto simp: emailKey_def in_emailsOf truthy_def split: option.splits if_splits)
  moreover have "distinct (emailKey c)"
    by (simp add: emailKey_def split: option.splits)
  ultimately have ems: "distinct (emailsOf (customers s @ [c]))"
    using wf by (auto simp: wellFormed_def noSharedEmail_def emailsOf_append emailsOf_Cons emailsOf_def)
  show ?thesis
    using ids num ems by (simp add: ok facts(3) wellFormed_def noSharedEmail_def)
qed

lemma delete_keeps_wellFormed:
  assumes wf: "wellFormed s"
  shows "wellFormed (snd (deleteCustomer i s))"
proof (cases "findIndex (\<lambda>c. idC c = i) (customers s)")
  case None
  then show ?thesis using wf by (simp add: deleteCustomer_def)
next
  case (Some k)
  note fi = findIndex_Some [OF Some]
  let ?cs = "customers s"
  let ?cs' = "take k ?cs @ drop (Suc k) ?cs"
  have cs: "?cs = take k ?cs @ ?cs ! k # drop (Suc k) ?cs"
    using fi by (simp add: split_at(1))
  have "distinct (map idC ?cs')"
  proof -
    from wf have "distinct (map idC (take k ?cs @ ?cs ! k # drop (Suc k) ?cs))"
      using cs by (simp add: wellFormed_def)
    then show ?thesis by auto
  qed
  moreover have "list_all (numberedBelow (nextId s)) ?cs'"
  proof -
    from wf have "list_all (numberedBelow (nextId s)) (take k ?cs @ ?cs ! k # drop (Suc k) ?cs)"
      using cs by (simp add: wellFormed_def)
    then show ?thesis by simp
  qed
  moreover have "distinct (emailsOf ?cs')"
  proof -
    from wf have "distinct (emailsOf (take k ?cs @ ?cs ! k # drop (Suc k) ?cs))"
      using cs by (simp add: wellFormed_def noSharedEmail_def)
    then show ?thesis by (auto simp: emailsOf_append emailsOf_Cons)
  qed
  ultimately show ?thesis
    using Some wf by (simp add: deleteCustomer_def wellFormed_def noSharedEmail_def)
qed

lemma update_keeps_wellFormed:
  assumes wf: "wellFormed s" and tr: "case ui_email input of None \<Rightarrow> True | Some e \<Rightarrow> trim e = e"
  shows "wellFormed (snd (updateCustomer getTime now nowMs i input s))"
proof (cases "\<exists>c. fst (updateCustomer getTime now nowMs i input s) = Inr c")
  case False
  then have "snd (updateCustomer getTime now nowMs i input s) = s"
    by (auto simp: updateCustomer_def Let_def split: option.splits if_splits)
  with wf show ?thesis by simp
next
  case True
  then obtain c' s' where ok: "updateCustomer getTime now nowMs i input s = (Inr c', s')"
    by (cases "updateCustomer getTime now nowMs i input s") auto
  from updateCustomer_Inr [OF ok] obtain k where
    k: "findIndex (\<lambda>c. idC c = i) (customers s) = Some k"
    and nd: "\<not> (truthy (ui_email input) \<and>
               (\<exists>c \<in> set (customers s). idC c \<noteq> i \<and> email c = ui_email input))"
    and c': "c' = recalculate getTime nowMs input
                  (trimInput input (mergeInput now input (customers s ! k)))"
    and s': "s' = s\<lparr>customers := (customers s)[k := c']\<rparr>"
    by blast
  note fi = findIndex_Some [OF k]
  let ?cs = "customers s"
  let ?a = "take k ?cs" and ?b = "drop (Suc k) ?cs"
  have cs: "?cs = ?a @ ?cs ! k # ?b" and cs': "?cs[k := c'] = ?a @ c' # ?b"
    using fi by (simp_all add: split_at)
  have idc: "idC c' = idC (?cs ! k)" and idk: "idC (?cs ! k) = i"
    using fi by (simp_all add: c' recalculated_fields merged_fields)
  have em: "email c' = (case ui_email input of None \<Rightarrow> email (?cs ! k) | Some e \<Rightarrow> Some e)"
    using tr by (simp add: c' recalculated_fields merged_fields split: option.splits)
  from wf have d0: "distinct (map idC (?a @ ?cs ! k # ?b))"
    and n0: "list_all (numberedBelow (nextId s)) (?a @ ?cs ! k # ?b)"
    and e0: "distinct (emailsOf (?a @ ?cs ! k # ?b))"
    using cs by (simp_all add: wellFormed_def noSharedEmail_def)
  have ids: "distinct (map idC (?a @ c' # ?b))"
    using d0 idc by simp
  have num: "list_all (numberedBelow (nextId s)) (?a @ c' # ?b)"
    using n0 idc by (simp add: numberedBelow_def)
  have others: "\<forall>c \<in> set ?a \<union> set ?b. idC c \<noteq> i"
    using others_have_other_ids [of ?cs k] wf fi idk by (simp add: wellFormed_def)
  have ems: "distinct (emailsOf (?a @ c' # ?b))"
  proof (cases "ui_email input")
    case None
    then have "emailKey c' = emailKey (?cs ! k)" using em by (simp add: emailKey_def)
    with e0 show ?thesis by (simp add: emailsOf_append emailsOf_Cons)
  next
    case (Some e)
    show ?thesis
    proof (cases "e = []")
      case True
      then have "emailKey c' = []" using em Some by (simp add: emailKey_def)
      with e0 show ?thesis by (auto simp: emailsOf_append emailsOf_Cons)
    next
      case False
      then have key: "emailKey c' = [e]" using em Some by (simp add: emailKey_def)
      have "\<forall>c \<in> set ?cs. idC c \<noteq> i \<longrightarrow> email c \<noteq> Some e"
        using nd Some False by (auto simp: truthy_def)
      moreover have "set ?a \<union> set ?b \<subseteq> set ?cs"
        by (meson Un_least set_drop_subset set_take_subset)
      ultimately have "\<forall>c \<in> set ?a \<union> set ?b. email c \<noteq> Some e"
        using others by blast
      then have "e \<notin> set (emailsOf ?a)" "e \<notin> set (emailsOf ?b)"
        by (auto simp: in_emailsOf)
      with e0 key show ?thesis by (auto simp: emailsOf_append emailsOf_Cons)
    qed
  qed
  show ?thesis
    using ids num ems by (simp add: ok s' cs' wellFormed_def noSharedEmail_def)
qed

lemma perform_keeps_wellFormed:
  assumes "wellFormed s" and "trimmedRequest r"
  shows "wellFormed (snd (perform env r s))"
proof (cases r)
  case (CreateCustomer now input)
  with assms create_keeps_wellFormed [of s input now] show ?thesis
    by (simp add: trimmedRequest_def split_beta)
next
  case (UpdateCustomer now nowMs i input)
  with assms update_keeps_wellFormed [of s input "env_getTime env" now nowMs i] show ?thesis
    by (simp add: trimmedRequest_def split_beta)
next
  case (DeleteCustomer i)
  with assms delete_keeps_wellFormed [of s i] show ?thesis
    by (simp add: split_beta)
qed (use assms in simp_all)

lemma performAll_keeps_wellFormed:
  assumes "wellFormed s" and "list_all trimmedRequest rs"
  shows "wellFormed (performAll env rs s)"
  using assms
proof (induction rs arbitrary: s)
  case Nil
  then show ?case by simp
next
  case (Cons r rs)
  then have "wellFormed (snd (perform env r s))"
    by (simp add: perform_keeps_wellFormed)
  with Cons show ?case by simp
qed

text \<open>
  The duplicate check compares the email as given, the record stores it trimmed: an email
  that differs from a stored one only by surrounding whitespace is stored a second time.
\<close>

lemma padded_email_is_stored_twice:
  "fst (createCustomer ''2025-01-02T00:00:00.000Z'' paddedInput sampleService)
     \<noteq> Inl DuplicateError \<and>
   noSharedEmail sampleService \<and>
   \<not> noSharedEmail (snd (createCustomer ''2025-01-02T00:00:00.000Z'' paddedInput sampleService))"
  by code_simp

section \<open>Every operation keeps the tiers\<close>

lemma perform_keeps_tiers:
  assumes "\<forall>c \<in> set (customers s). subscriptionTier c \<noteq> None"
  shows "\<forall>c \<in> set (customers (snd (perform env r s))). subscriptionTier c \<noteq> None"
proof (cases r)
  case (CreateCustomer now input)
  with assms show ?thesis
    by (auto simp: createCustomer_def Let_def split: option.splits if_splits)
next
  case (UpdateCustomer now nowMs i input)
  show ?thesis
  proof (cases "\<exists>c. fst (updateCustomer (env_getTime env) now nowMs i input s) = Inr c")
    case False
    then have "snd (updateCustomer (env_getTime env) now nowMs i input s) = s"
      by (auto simp: updateCustomer_def Let_def split: option.splits if_splits)
    with assms UpdateCustomer show ?thesis by (simp add: split_beta)
  next
    case True
    then obtain c' s' where ok: "updateCustomer (env_getTime env) now nowMs i input s = (Inr c', s')"
      by (cases "updateCustomer (env_getTime env) now nowMs i input s") auto
    from updateCustomer_Inr [OF ok] obtain k where
      k: "findIndex (\<lambda>c. idC c = i) (customers s) = Some k"
      and c': "c' = recalculate (env_getTime env) nowMs input
                  (trimInput input (mergeInput now input (customers s ! k)))"
      and s': "s' = s\<lparr>customers := (customers s)[k := c']\<rparr>"
      by blast
    have "customers s ! k \<in> set (customers s)"
      using findIndex_Some [OF k] by simp
    then have "subscriptionTier c' \<noteq> None"
      using assms by (auto simp: c' recalculated_fields merged_fields split: option.splits)
    moreover have "set ((customers s)[k := c']) \<subseteq> insert c' (set (customers s))"
      by (rule set_update_subset_insert)
    ultimately show ?thesis
      using assms UpdateCustomer ok s' by auto
  qed
next
  case (DeleteCustomer i)
  with assms show ?thesis
    by (auto simp: deleteCustomer_def split: option.splits if_splits
             dest: in_set_takeD in_set_dropD)
qed (use assms in simp_all)

section \<open>The claims\<close>

text \<open>
  Claim C1, amended. Emails are compared exactly, character for character. A create input
  that passes validation and whose non-empty email equals the email of a stored customer
  fails with a duplicate error and leaves the state as it was. An update of an existing
  customer with a valid patch whose non-empty email equals the email of a stored customer
  with another id fails with a duplicate error and leaves the state as it was. Hence,
  from a well-formed state (pairwise different ids that are decimal numerals below the id
  counter, no non-empty email stored twice) and after any sequence of operations whose
  emails carry no surrounding whitespace, no two customers have the same non-empty email.
  The comparison is not case-insensitive: the counterexample creates a customer whose
  email differs from a stored one only in case.
\<close>

theorem C1_duplicate_email:
  "(validateCustomerInput input = None \<and> truthy (ci_email input) \<and>
      (\<exists>c \<in> set (customers s). email c = ci_email input)
    \<longrightarrow> createCustomer now input s = (Inl DuplicateError, s)) \<and>
   (\<not> blankId i \<and> (\<exists>c \<in> set (customers s). idC c = i) \<and>
      validateCustomerUpdateInput patch = None \<and> truthy (ui_email patch) \<and>
      (\<exists>c \<in> set (customers s). idC c \<noteq> i \<and> email c = ui_email patch)
    \<longrightarrow> updateCustomer getTime now nowMs i patch s = (Inl DuplicateError, s)) \<and>
   (wellFormed s \<and> list_all trimmedRequest rs \<longrightarrow> noSharedEmail (performAll env rs s))"
proof (intro conjI impI)
  assume "validateCustomerInput input = None \<and> truthy (ci_email input) \<and>
      (\<exists>c \<in> set (customers s). email c = ci_email input)"
  then show "createCustomer now input s = (Inl DuplicateError, s)"
    by (simp add: createCustomer_def)
next
  assume a: "\<not> blankId i \<and> (\<exists>c \<in> set (customers s). idC c = i) \<and>
      validateCustomerUpdateInput patch = None \<and> truthy (ui_email patch) \<and>
      (\<exists>c \<in> set (customers s). idC c \<noteq> i \<and> email c = ui_email patch)"
  then have "findIndex (\<lambda>c. idC c = i) (customers s) \<noteq> None"
    by (simp add: findIndex_None)
  then obtain k where "findIndex (\<lambda>c. idC c = i) (customers s) = Some k" by blast
  with a show "updateCustomer getTime now nowMs i patch s = (Inl DuplicateError, s)"
    by (simp add: updateCustomer_def)
next
  assume "wellFormed s \<and> list_all trimmedRequest rs"
  then have "wellFormed (performAll env rs s)"
    by (simp add: performAll_keeps_wellFormed)
  then show "noSharedEmail (performAll env rs s)"
    by (simp add: wellFormed_def)
qed

theorem C1_duplicate_email_witness:
  "createCustomer ''2025-01-02T00:00:00.000Z'' duplicateInput sampleService
     = (Inl DuplicateError, sampleService) \<and>
   updateCustomer (\<lambda>t. 0) ''2025-01-02T00:00:00.000Z'' 0 ''2''
       (emptyPatch\<lparr>ui_email := Some ''john.smith@acmecorp.com''\<rparr>) sampleService
     = (Inl DuplicateError, sampleService) \<and>
   wellFormed sampleService \<and> list_all trimmedRequest sampleRequests \<and>
   noSharedEmail (performAll sampleEnv sampleRequests sampleService)"
proof -
  have c: "validateCustomerInput duplicateInput = None \<and> truthy (ci_email duplicateInput) \<and>
      (\<exists>c \<in> set (customers sampleService). email c = ci_email duplicateInput)"
    by code_simp
  have u: "\<not> blankId ''2'' \<and> (\<exists>c \<in> set (customers sampleService). idC c = ''2'') \<and>
      validateCustomerUpdateInput (emptyPatch\<lparr>ui_email := Some ''john.smith@acmecorp.com''\<rparr>)
        = None \<and>
      truthy (ui_email (emptyPatch\<lparr>ui_email := Some ''john.smith@acmecorp.com''\<rparr>)) \<and>
      (\<exists>c \<in> set (customers sampleService). idC c \<noteq> ''2'' \<and>
         email c = ui_email (emptyPatch\<lparr>ui_email := Some ''john.smith@acmecorp.com''\<rparr>))"
    by code_simp
  have w: "wellFormed sampleService" by code_simp
  have t: "list_all trimmedRequest sampleRequests" by code_simp
  from C1_duplicate_email
         [where input = duplicateInput and s = sampleService
            and now = "''2025-01-02T00:00:00.000Z''" and i = "''2''"
            and patch = "emptyPatch\<lparr>ui_email := Some ''john.smith@acmecorp.com''\<rparr>"
            and getTime = "\<lambda>t. 0" and nowMs = 0 and rs = sampleRequests and env = sampleEnv]
       c u w t
  show ?thesis by blast
qed

theorem C1_duplicate_email_counterexample:
  "toLowerCase (the (ci_email mixedCaseInput)) = toLowerCase (the (email john)) \<and>
   john \<in> set (customers sampleService) \<and>
   validateCustomerInput mixedCaseInput = None \<and>
   fst (createCustomer ''2025-01-02T00:00:00.000Z'' mixedCaseInput sampleService)
     \<noteq> Inl DuplicateError \<and>
   noSharedEmailCI sampleService \<and>
   \<not> noSharedEmailCI (snd (createCustomer ''2025-01-02T00:00:00.000Z'' mixedCaseInput sampleService))"
  by code_simp

text \<open>
  Claim C2. A create input that passes validation and collides with no stored email is
  accepted: the returned record is appended to the collection, the id counter advances by
  one, and the record has the health score the specification's formula gives for its tier, its domains
  (none when omitted) and its email (counted when it is a non-empty string): the base 50,
  the tier bonus 30, 15, 5 or 0, five points for each domain up to 20, ten points for the
  email, rounded and clamped to 0..100. With tier premium, one domain and an email the
  score is 80.
\<close>

theorem C2_initial_health_score:
  assumes "validateCustomerInput input = None"
    and "\<not> (truthy (ci_email input) \<and> (\<exists>x \<in> set (customers s). email x = ci_email input))"
  shows "\<exists>c. createCustomer now input s =
               (Inr c, s\<lparr>customers := customers s @ [c], nextId := nextId s + 1\<rparr>) \<and>
           healthScore c =
             of_int (specInitialScore (ci_subscriptionTier input)
                       (case ci_domains input of None \<Rightarrow> [] | Some ds \<Rightarrow> ds) (ci_email input)) \<and>
           (ci_subscriptionTier input = Some premium \<and>
              (\<exists>d. ci_domains input = Some [d]) \<and> truthy (ci_email input)
            \<longrightarrow> healthScore c = 80)"
proof -
  from createCustomer_succeeds [OF assms] obtain c s'
    where ok: "createCustomer now input s = (Inr c, s')" by blast
  have st: "s' = s\<lparr>customers := customers s @ [c], nextId := nextId s + 1\<rparr>"
    by (rule createCustomer_Inr(3) [OF ok])
  have hs: "healthScore c = calculateInitialHealthScore input"
    using createCustomer_Inr(2) [OF ok] by simp
  have gen: "healthScore c =
      of_int (specInitialScore (ci_subscriptionTier input)
                (case ci_domains input of None \<Rightarrow> [] | Some ds \<Rightarrow> ds) (ci_email input))"
    using hs by (simp only: initial_score_spec)
  have part: "healthScore c = 80"
    if "ci_subscriptionTier input = Some premium" "\<exists>d. ci_domains input = Some [d]"
       "truthy (ci_email input)"
    using that hs
    by (auto simp: calculateInitialHealthScore_def tierBonus_def domainBonus_def emailBonus_def)
  from ok st gen part show ?thesis by blast
qed

theorem C2_initial_health_score_witness:
  "validateCustomerInput janeInput = None \<and>
   createCustomer ''2025-01-01T00:00:00.000Z'' janeInput emptyService
     = (Inr janeCustomer, \<lparr>customers = [janeCustomer], nextId = 10\<rparr>) \<and>
   healthScore janeCustomer = 80"
proof -
  have v: "validateCustomerInput janeInput = None" by code_simp
  have n: "\<not> (truthy (ci_email janeInput) \<and>
              (\<exists>x \<in> set (customers emptyService). email x = ci_email janeInput))"
    by (simp add: emptyService_def)
  have p: "ci_subscriptionTier janeInput = Some premium \<and>
           (\<exists>d. ci_domains janeInput = Some [d]) \<and> truthy (ci_email janeInput)"
    by (simp add: janeInput_def truthy_def)
  have e: "fst (createCustomer ''2025-01-01T00:00:00.000Z'' janeInput emptyService)
             = Inr janeCustomer"
    by code_simp
  from C2_initial_health_score [OF v n, of "''2025-01-01T00:00:00.000Z''"] p
  obtain c where c: "createCustomer ''2025-01-01T00:00:00.000Z'' janeInput emptyService =
               (Inr c, emptyService\<lparr>customers := customers emptyService @ [c],
                                     nextId := nextId emptyService + 1\<rparr>)"
    and h: "healthScore c = 80"
    by blast
  from c e have "c = janeCustomer" by simp
  with c h v show ?thesis by (simp add: emptyService_def)
qed

text \<open>
  Claim C3. An update of an existing customer with a valid patch that collides with no
  other customer's email succeeds. When the patch contains a tier or domains, the stored
  and returned record carries the merged tier, domains and email (the patch's value where
  it has one, the trimmed email, otherwise the stored value), and its health score is the
  specification's formula on these merged values plus the account-age bonus
  \<open>min(days / 10, 15)\<close> computed from the stored creation time, rounded and clamped.
  The same record results whatever valid health score the patch carries, or none: the
  recomputed value overrides it.
\<close>

theorem C3_recompute_on_update:
  assumes "\<not> blankId i" and "\<exists>c \<in> set (customers s). idC c = i"
    and "validateCustomerUpdateInput input = None"
    and "\<not> (truthy (ui_email input) \<and>
            (\<exists>c \<in> set (customers s). idC c \<noteq> i \<and> email c = ui_email input))"
    and "ui_subscriptionTier input \<noteq> None \<or> ui_domains input \<noteq> None"
  shows "\<exists>c' s' k. updateCustomer getTime now nowMs i input s = (Inr c', s') \<and>
          findIndex (\<lambda>c. idC c = i) (customers s) = Some k \<and> k < length (customers s) \<and>
          (let old = customers s ! k;
               T = (case ui_subscriptionTier input of None \<Rightarrow> subscriptionTier old
                      | Some t \<Rightarrow> Some t);
               D = (case ui_domains input of None \<Rightarrow> domains old | Some ds \<Rightarrow> Some ds);
               E = (case ui_email input of None \<Rightarrow> email old | Some e \<Rightarrow> Some (trim e))
           in idC old = i \<and> subscriptionTier c' = T \<and> domains c' = D \<and> email c' = E \<and>
              healthScore c' =
                of_int (specRecomputedScore T (case D of None \<Rightarrow> [] | Some ds \<Rightarrow> ds) E
                          (specDaysSince getTime nowMs (createdAt old)))) \<and>
          s' = s\<lparr>customers := (customers s)[k := c']\<rparr> \<and>
          (\<forall>h. (\<forall>x. h = Some x \<longrightarrow> 0 \<le> x \<and> x \<le> 100) \<longrightarrow>
               updateCustomer getTime now nowMs i (input\<lparr>ui_healthScore := h\<rparr>) s = (Inr c', s'))"
proof -
  from updateCustomer_succeeds [OF assms(1-4)] obtain c' s'
    where ok: "updateCustomer getTime now nowMs i input s = (Inr c', s')" by blast
  from recompute_on_update [OF ok assms(5)] ok show ?thesis by blast
qed

theorem C3_recompute_on_update_witness:
  "updateCustomer (\<lambda>t. 0) ''2025-01-01T00:00:00.000Z'' 4060800000 ''1'' tierPatch sampleService
     = (Inr johnBasic, \<lparr>customers = [johnBasic, sarah, michael], nextId = 4\<rparr>) \<and>
   ui_healthScore tierPatch = Some 12 \<and>
   healthScore johnBasic = 80 \<and>
   specRecomputedScore (Some basic) [''acmecorp.com'', ''portal.acmecorp.com'']
     (Some ''john.smith@acmecorp.com'') (Some 47) = 80 \<and>
   updateCustomer (\<lambda>t. 0) ''2025-01-01T00:00:00.000Z'' 4060800000 ''1''
       (tierPatch\<lparr>ui_healthScore := Some 99\<rparr>) sampleService
     = (Inr johnBasic, \<lparr>customers = [johnBasic, sarah, michael], nextId = 4\<rparr>)"
proof -
  have h: "\<not> blankId ''1''" "\<exists>c \<in> set (customers sampleService). idC c = ''1''"
    "validateCustomerUpdateInput tierPatch = None"
    "\<not> (truthy (ui_email tierPatch) \<and>
        (\<exists>c \<in> set (customers sampleService). idC c \<noteq> ''1'' \<and> email c = ui_email tierPatch))"
    "ui_subscriptionTier tierPatch \<noteq> None \<or> ui_domains tierPatch \<noteq> None"
    by code_simp+
  have ok: "updateCustomer (\<lambda>t. 0) ''2025-01-01T00:00:00.000Z'' 4060800000 ''1'' tierPatch
              sampleService
            = (Inr johnBasic, \<lparr>customers = [johnBasic, sarah, michael], nextId = 4\<rparr>)"
    by code_simp
  have sc: "specRecomputedScore (Some basic) [''acmecorp.com'', ''portal.acmecorp.com'']
     (Some ''john.smith@acmecorp.com'') (Some 47) = 80"
    by code_simp
  from C3_recompute_on_update [OF h, of "\<lambda>t. 0" "''2025-01-01T00:00:00.000Z''" 4060800000] ok
  have "updateCustomer (\<lambda>t. 0) ''2025-01-01T00:00:00.000Z'' 4060800000 ''1''
       (tierPatch\<lparr>ui_healthScore := Some 99\<rparr>) sampleService
     = (Inr johnBasic, \<lparr>customers = [johnBasic, sarah, michael], nextId = 4\<rparr>)"
    by auto
  with ok sc show ?thesis
    by (simp add: tierPatch_def johnBasic_def)
qed

text \<open>
  Claim C4, amended. Creation fails with a validation error, leaving the state as it was,
  exactly when the name or the company is empty after trimming or longer than 100
  characters after trimming, or an email is given (a non-empty string) that is not
  well-formed, or some domain is not valid (the pattern, and at most 253 characters).
  Creation checks neither the length of the email nor the number of domains: the
  counterexample is an input with eleven valid domains, and one with a well-formed email
  of 255 characters, both of which pass validation.
\<close>

theorem C4_create_validation:
  "(specCreateViolation input \<longrightarrow> createCustomer now input s = (Inl ValidationError, s)) \<and>
   (\<not> specCreateViolation input \<longrightarrow> fst (createCustomer now input s) \<noteq> Inl ValidationError)"
  by (simp add: createCustomer_def validateCustomerInput_violation Let_def)

theorem C4_create_validation_witness:
  "specCreateViolation invalidEmailInput \<and>
   createCustomer ''2025-01-01T00:00:00.000Z'' invalidEmailInput sampleService
     = (Inl ValidationError, sampleService) \<and>
   \<not> specCreateViolation janeInput \<and>
   fst (createCustomer ''2025-01-01T00:00:00.000Z'' janeInput sampleService) \<noteq> Inl ValidationError"
proof -
  have a: "specCreateViolation invalidEmailInput" by code_simp
  have b: "\<not> specCreateViolation janeInput" by code_simp
  from C4_create_validation [of invalidEmailInput "''2025-01-01T00:00:00.000Z''" sampleService]
    C4_create_validation [of janeInput "''2025-01-01T00:00:00.000Z''" sampleService] a b
  show ?thesis by simp
qed

theorem C4_create_validation_counterexample:
  "specClaimedViolation elevenDomainsInput \<and>
   fst (createCustomer ''2025-01-01T00:00:00.000Z'' elevenDomainsInput sampleService)
     \<noteq> Inl ValidationError \<and>
   specClaimedViolation longEmailInput \<and>
   fst (createCustomer ''2025-01-01T00:00:00.000Z'' longEmailInput sampleService)
     \<noteq> Inl ValidationError"
  by code_simp

text \<open>
  Claim C5. Every public operation, on every input and state, returns either a failure
  with one of the three error codes, and then the state (the collection and the id
  counter) is the one before the call, or a success.
\<close>

theorem C5_failure_leaves_state:
  "(\<exists>e. perform env r s = (Inl e, s) \<and>
        code e \<in> {''VALIDATION_ERROR'', ''NOT_FOUND'', ''DUPLICATE_ERROR''}) \<or>
   (\<exists>v s'. perform env r s = (Inr v, s'))"
proof -
  have c: "code e \<in> {''VALIDATION_ERROR'', ''NOT_FOUND'', ''DUPLICATE_ERROR''}" for e
    by (cases e) (simp_all add: code_def)
  have "(\<exists>e. perform env r s = (Inl e, s)) \<or> (\<exists>v s'. perform env r s = (Inr v, s'))"
  proof (cases r)
    case (CreateCustomer now input)
    then show ?thesis
      by (auto simp: createCustomer_def Let_def split: option.splits)
  next
    case (UpdateCustomer now nowMs i input)
    then show ?thesis
      by (auto simp: updateCustomer_def Let_def split: option.splits)
  next
    case (DeleteCustomer i)
    then show ?thesis
      by (auto simp: deleteCustomer_def split: option.splits)
  next
    case (GetCustomers options)
    then show ?thesis
      by (cases "getCustomers (env_sort env) (env_localeCompare env) options s") auto
  next
    case (GetCustomerById i)
    then show ?thesis by (cases "getCustomerById i s") auto
  next
    case (GetCustomersByHealthScore lo hi)
    then show ?thesis by (cases "getCustomersByHealthScore lo hi s") auto
  next
    case (GetCustomersByTier t)
    then show ?thesis by (cases "getCustomersByTier t s") auto
  next
    case (SearchCustomers t)
    then show ?thesis by (cases "searchCustomers t s") auto
  next
    case GetCustomerStats
    then show ?thesis by (cases "getCustomerStats s") auto
  qed
  with c show ?thesis by blast
qed

theorem C5_failure_leaves_state_witness:
  "perform sampleEnv (CreateCustomer ''2025-01-01T00:00:00.000Z'' duplicateInput) sampleService
     = (Inl DuplicateError, sampleService) \<and>
   perform sampleEnv (DeleteCustomer ''999'') sampleService = (Inl NotFoundError, sampleService)"
proof -
  have a: "fst (perform sampleEnv (CreateCustomer ''2025-01-01T00:00:00.000Z'' duplicateInput)
                  sampleService) = Inl DuplicateError"
    by code_simp
  have b: "fst (perform sampleEnv (DeleteCustomer ''999'') sampleService) = Inl NotFoundError"
    by code_simp
  from C5_failure_leaves_state
         [of sampleEnv "CreateCustomer ''2025-01-01T00:00:00.000Z'' duplicateInput" sampleService]
       C5_failure_leaves_state [of sampleEnv "DeleteCustomer ''999''" sampleService] a b
  show ?thesis by auto
qed




text \<open>
  Claim C7, amended. Page and limit are integers, an absent or zero one taking the default
  1 or 10. For every filter and sort combination, every page and every limit, the listing
  succeeds; the filters select the stored customers that satisfy all of them, in stored
  order; the selection is sorted before it is paginated: the page is the slice of the
  sorted selection from \<open>(page - 1) * limit\<close> to \<open>page * limit\<close>, the total is the
  size of the selection and the number of pages is the ceiling of total over limit. When
  the limit is not negative the page has at most limit entries and the pages 1 up to the
  number of pages, in order, concatenate to the sorted selection. With a negative limit
  the page can be longer than the limit and the pages do not make up the selection, as
  the counterexample shows.

  The sorted selection is the selection itself when no sort key is given, and otherwise
  what the engine's sort makes of it with the service's comparator: a rearrangement of
  the selection which, when the comparator is a consistent ordering on the selection, is
  ordered by the key, ascending or descending as requested, with equal keys in stored
  order. That is so for the health score, and for a string key that every selected record
  has when \<open>localeCompare\<close> is a consistent ordering of those strings. Where some
  selected record lacks the key the comparator is not consistent and the order is the
  engine's.
\<close>

theorem C7_pagination:
  "\<exists>r. getCustomers sortFn lc options s = Inr r \<and>
     (let filtered = filter (specFilterMatch options) (customers s);
          sorted = applySorting sortFn lc options (applyFilters options (customers s));
          lim = orDefault (limit options) 10;
          pg = orDefault (page options) 1;
          descending = (sortOrder options = Some desc)
      in applyFilters options (customers s) = filtered \<and>
         data r = slice sorted ((pg - 1) * lim) ((pg - 1) * lim + lim) \<and>
         p_page (pagination r) = pg \<and> p_limit (pagination r) = lim \<and>
         p_total (pagination r) = length sorted \<and>
         totalPages (pagination r) = \<lceil>(of_nat (length sorted) :: rat) / of_int lim\<rceil> \<and>
         (sortBy options = None \<longrightarrow> sorted = filtered) \<and>
         (sortsStably sortFn \<longrightarrow>
            mset sorted = mset filtered \<and> p_total (pagination r) = length filtered) \<and>
         (sortsStably sortFn \<and> sortBy options = Some KeyHealthScore \<longrightarrow>
            sorted_wrt (\<lambda>a b. if descending then healthScore b \<le> healthScore a
                               else healthScore a \<le> healthScore b) sorted \<and>
            (\<forall>h. filter (\<lambda>c. healthScore c = h) sorted
                 = filter (\<lambda>c. healthScore c = h) filtered)) \<and>
         (\<forall>k X. sortsStably sortFn \<and> sortBy options = Some k \<and>
                consistentOn (\<lambda>x y. of_int (lc x y)) X \<and>
                (\<forall>c \<in> set filtered. \<exists>x \<in> X. field k c = Str x) \<longrightarrow>
            sorted_wrt (\<lambda>a b. \<exists>x y. field k a = Str x \<and> field k b = Str y \<and>
                                 (if descending then 0 \<le> lc x y else lc x y \<le> 0)) sorted) \<and>
         (\<forall>k. sortsStably sortFn \<and> sortBy options = Some k \<and>
              consistentOn (compareCustomers lc k (sortOrder options)) (set filtered) \<longrightarrow>
            sorted_wrt (\<lambda>a b. compareCustomers lc k (sortOrder options) a b \<le> 0) sorted \<and>
            (\<forall>x \<in> set filtered.
               filter (\<lambda>y. compareCustomers lc k (sortOrder options) x y = 0) sorted
               = filter (\<lambda>y. compareCustomers lc k (sortOrder options) x y = 0) filtered)) \<and>
         (0 < lim \<longrightarrow>
            int (length (data r)) \<le> lim \<and>
            concat (map (\<lambda>q. data (projr (getCustomers sortFn lc (options\<lparr>page := Some q\<rparr>) s)))
                      [1..totalPages (pagination r)]) = sorted))"
proof -
  let ?filtered = "filter (specFilterMatch options) (customers s)"
  let ?sorted = "applySorting sortFn lc options ?filtered"
  let ?lim = "orDefault (limit options) 10"
  let ?pg = "orDefault (page options) 1"
  define r where "r = projr (getCustomers sortFn lc options s)"
  have f: "applyFilters options (customers s) = ?filtered" by (rule applyFilters_spec)
  have r: "getCustomers sortFn lc options s = Inr r"
    unfolding r_def by (simp add: getCustomers_page)
  have d: "data r = slice ?sorted ((?pg - 1) * ?lim) ((?pg - 1) * ?lim + ?lim)"
    and p: "pagination r = \<lparr>p_page = ?pg, p_limit = ?lim, p_total = length ?sorted,
              totalPages = \<lceil>(of_nat (length ?sorted) :: rat) / of_int ?lim\<rceil>\<rparr>"
    unfolding r_def by (simp_all add: getCustomers_page f)
  have none: "?sorted = ?filtered" if "sortBy options = None"
    using that by (simp add: applySorting_def)
  have perm: "mset ?sorted = mset ?filtered \<and> length ?sorted = length ?filtered"
    if "sortsStably sortFn"
    using mset_applySorting [OF that, of lc options ?filtered] by (metis size_mset)
  have num: "sorted_wrt (\<lambda>a b. if sortOrder options = Some desc then healthScore b \<le> healthScore a
                               else healthScore a \<le> healthScore b) ?sorted \<and>
            (\<forall>h. filter (\<lambda>c. healthScore c = h) ?sorted
                 = filter (\<lambda>c. healthScore c = h) ?filtered)"
    if "sortsStably sortFn \<and> sortBy options = Some KeyHealthScore"
    using sorted_by_healthScore [where sortFn = sortFn and options = options and lc = lc and cs = ?filtered] that by blast
  have str: "sorted_wrt (\<lambda>a b. \<exists>x y. field k a = Str x \<and> field k b = Str y \<and>
                 (if sortOrder options = Some desc then 0 \<le> lc x y else lc x y \<le> 0)) ?sorted"
    if "sortsStably sortFn \<and> sortBy options = Some k \<and>
        consistentOn (\<lambda>x y. of_int (lc x y)) X \<and>
        (\<forall>c \<in> set ?filtered. \<exists>x \<in> X. field k c = Str x)" for k X
    using sorted_by_string_key [where sortFn = sortFn and options = options and lc = lc and cs = ?filtered and k = k and X = X] that by blast
  have gen: "sorted_wrt (\<lambda>a b. compareCustomers lc k (sortOrder options) a b \<le> 0) ?sorted \<and>
            (\<forall>x \<in> set ?filtered.
               filter (\<lambda>y. compareCustomers lc k (sortOrder options) x y = 0) ?sorted
               = filter (\<lambda>y. compareCustomers lc k (sortOrder options) x y = 0) ?filtered)"
    if "sortsStably sortFn \<and> sortBy options = Some k \<and>
        consistentOn (compareCustomers lc k (sortOrder options)) (set ?filtered)" for k
    using sorted_by_cmp [where sortFn = sortFn and options = options and lc = lc and cs = ?filtered and k = k] that by blast
  have pages: "int (length (data r)) \<le> ?lim \<and>
      concat (map (\<lambda>q. data (projr (getCustomers sortFn lc (options\<lparr>page := Some q\<rparr>) s)))
                [1..totalPages (pagination r)]) = ?sorted"
    if l: "0 < ?lim"
  proof -
    have "0 \<le> ?lim" using l by simp
    then have "int (length (data r)) \<le> ?lim"
      unfolding d by (rule length_slice_le)
    moreover have "concat (map (\<lambda>q. data (projr (getCustomers sortFn lc (options\<lparr>page := Some q\<rparr>) s)))
                [1..totalPages (pagination r)]) = ?sorted"
      unfolding p using all_pages [OF l, of sortFn lc s] by (simp add: f)
    ultimately show ?thesis by simp
  qed
  show ?thesis
    apply (rule exI [of _ r])
    unfolding Let_def f
    using r d p none perm num str gen pages
    by (intro conjI impI allI; (simp; fail | blast))
qed

theorem C7_pagination_witness:
  "data (projr (getCustomers arraySort (\<lambda>a b. 0) byScoreOptions tieService)) = [michael, sarah] \<and>
   data (projr (getCustomers arraySort (\<lambda>a b. 0) (byScoreOptions\<lparr>page := Some 2\<rparr>) tieService))
     = [emma, john] \<and>
   pagination (projr (getCustomers arraySort (\<lambda>a b. 0) byScoreOptions tieService))
     = \<lparr>p_page = 1, p_limit = 2, p_total = 4, totalPages = 2\<rparr> \<and>
   concat (map (\<lambda>q. data (projr (getCustomers arraySort (\<lambda>a b. 0)
                                    (byScoreOptions\<lparr>page := Some q\<rparr>) tieService))) [1..2])
     = [michael, sarah, emma, john] \<and>
   sorted_wrt (\<lambda>a b. healthScore a \<le> healthScore b) [michael, sarah, emma, john] \<and>
   filter (\<lambda>c. healthScore c = 45) [michael, sarah, emma, john] = [sarah, emma] \<and>
   applySorting arraySort (\<lambda>a b. 0) (byScoreOptions\<lparr>sortOrder := Some desc\<rparr>)
       (applyFilters (byScoreOptions\<lparr>sortOrder := Some desc\<rparr>) (customers tieService))
     = [john, sarah, emma, michael] \<and>
   applySorting arraySort byLength byNameOptions
       (applyFilters byNameOptions (customers tieService))
     = [sarah, michael, emma, john] \<and>
   sorted_wrt (\<lambda>a b. 0 \<le> byLength (name a) (name b)) [sarah, michael, emma, john] \<and>
   applySorting arraySort byLength noOptions (applyFilters noOptions (customers tieService))
     = [john, sarah, michael, emma]"
proof -
  have st: "sortsStably arraySort" by (rule sortsStably_arraySort)
  have l: "0 < orDefault (limit byScoreOptions) 10" by code_simp
  have k: "sortBy byScoreOptions = Some KeyHealthScore" "sortOrder byScoreOptions \<noteq> Some desc"
    by code_simp+
  have a: "data (projr (getCustomers arraySort (\<lambda>a b. 0) byScoreOptions tieService))
             = [michael, sarah]"
    by code_simp
  have b: "data (projr (getCustomers arraySort (\<lambda>a b. 0) (byScoreOptions\<lparr>page := Some 2\<rparr>)
                          tieService)) = [emma, john]"
    by code_simp
  have c: "pagination (projr (getCustomers arraySort (\<lambda>a b. 0) byScoreOptions tieService))
     = \<lparr>p_page = 1, p_limit = 2, p_total = 4, totalPages = 2\<rparr>"
    by code_simp
  have d: "applySorting arraySort (\<lambda>a b. 0) byScoreOptions
             (applyFilters byScoreOptions (customers tieService)) = [michael, sarah, emma, john]"
    by code_simp
  have e: "applySorting arraySort (\<lambda>a b. 0) (byScoreOptions\<lparr>sortOrder := Some desc\<rparr>)
       (applyFilters (byScoreOptions\<lparr>sortOrder := Some desc\<rparr>) (customers tieService))
     = [john, sarah, emma, michael]"
    by code_simp
  have f: "filter (specFilterMatch byScoreOptions) (customers tieService)
             = [john, sarah, michael, emma]"
    by code_simp
  from C7_pagination [where sortFn = arraySort and lc = "\<lambda>a b. 0" and options = byScoreOptions
                        and s = tieService]
  obtain r where r: "getCustomers arraySort (\<lambda>a b. 0) byScoreOptions tieService = Inr r"
    and pages: "concat (map (\<lambda>q. data (projr (getCustomers arraySort (\<lambda>a b. 0)
                                    (byScoreOptions\<lparr>page := Some q\<rparr>) tieService)))
                  [1..totalPages (pagination r)]) = [michael, sarah, emma, john]"
    and ord: "sorted_wrt (\<lambda>a b. healthScore a \<le> healthScore b) [michael, sarah, emma, john]"
    and ties: "filter (\<lambda>c. healthScore c = 45) [michael, sarah, emma, john]
                 = filter (\<lambda>c. healthScore c = 45) [john, sarah, michael, emma]"
    unfolding Let_def d f using st l k by auto
  have "totalPages (pagination r) = 2" using r c by simp
  moreover have "filter (\<lambda>c. healthScore c = 45) [john, sarah, michael, emma] = [sarah, emma]"
    by code_simp
  moreover have "sorted_wrt (\<lambda>a b. 0 \<le> byLength (name a) (name b)) [sarah, michael, emma, john]"
  proof -
    have n: "sortBy byNameOptions = Some KeyName" "sortOrder byNameOptions = Some desc"
      by code_simp+
    have g: "applySorting arraySort byLength byNameOptions
               (applyFilters byNameOptions (customers tieService)) = [sarah, michael, emma, john]"
      by code_simp
    have key: "\<forall>c \<in> set (filter (specFilterMatch byNameOptions) (customers tieService)).
                 \<exists>x \<in> UNIV. field KeyName c = Str x"
      by (simp add: field_def)
    from C7_pagination [where sortFn = arraySort and lc = byLength and options = byNameOptions
                          and s = tieService]
    have "sorted_wrt (\<lambda>a b. \<exists>x y. field KeyName a = Str x \<and> field KeyName b = Str y \<and>
                                  0 \<le> byLength x y) [sarah, michael, emma, john]"
      unfolding Let_def g using st n key consistent_byLength [of UNIV] by auto
    then show ?thesis
      by (rule sorted_wrt_mono_rel [rotated]) (auto simp: field_def)
  qed
  moreover have "applySorting arraySort byLength byNameOptions
       (applyFilters byNameOptions (customers tieService)) = [sarah, michael, emma, john]"
    by code_simp
  moreover have "applySorting arraySort byLength noOptions (applyFilters noOptions (customers tieService))
          = [john, sarah, michael, emma]"
  proof -
    have "sortBy noOptions = None" by code_simp
    moreover have "filter (specFilterMatch noOptions) (customers tieService)
                     = [john, sarah, michael, emma]"
      by code_simp
    ultimately show ?thesis
      using C7_pagination [where sortFn = arraySort and lc = byLength and options = noOptions
                             and s = tieService]
      by (auto simp: Let_def)
  qed
  ultimately show ?thesis using a b c e pages ord ties by simp
qed

theorem C7_pagination_counterexample:
  "\<not> int (length (data (projr (getCustomers arraySort (\<lambda>a b. 0) negativeLimitOptions
                                   sampleService))))
       \<le> p_limit (pagination (projr (getCustomers arraySort (\<lambda>a b. 0) negativeLimitOptions
                                        sampleService)))
   \<and> limit negativeLimitOptions = Some (- 1)
   \<and> data (projr (getCustomers arraySort (\<lambda>a b. 0) negativeLimitOptions sampleService))
       = [john, sarah]
   \<and> concat (map (\<lambda>q. data (projr (getCustomers arraySort (\<lambda>a b. 0)
                                       (negativeLimitOptions\<lparr>page := Some q\<rparr>) sampleService)))
               [1..totalPages (pagination (projr (getCustomers arraySort (\<lambda>a b. 0)
                                                    negativeLimitOptions sampleService)))])
       \<noteq> applySorting arraySort (\<lambda>a b. 0) negativeLimitOptions
           (applyFilters negativeLimitOptions (customers sampleService))"
  by code_simp

text \<open>
  Claim C8. With bounds that are numbers the health-score range query fails with a
  validation error exactly when the lower bound exceeds the upper one or a bound lies
  outside 0..100, and otherwise returns the stored customers whose health score lies in
  the closed interval, in stored order; an omitted bound counts as 0 or 100. The guard
  misses \<open>NaN\<close>: with a bound that is \<open>NaN\<close> only the other bound is checked, against
  its own end of 0..100, and the query then succeeds with no customer. So the bounds 150
  and \<open>NaN\<close>, or \<open>NaN\<close> and -5, are accepted although a bound lies outside 0..100.
\<close>

theorem C8_health_score_range:
  "getCustomersByHealthScore (Some (Finite lo)) (Some (Finite hi)) s =
     (if hi < lo \<or> lo < 0 \<or> 100 < lo \<or> hi < 0 \<or> 100 < hi then Inl ValidationError
      else Inr (filter (\<lambda>c. lo \<le> healthScore c \<and> healthScore c \<le> hi) (customers s))) \<and>
   getCustomersByHealthScore None maxArg s = getCustomersByHealthScore (Some (Finite 0)) maxArg s \<and>
   getCustomersByHealthScore minArg None s = getCustomersByHealthScore minArg (Some (Finite 100)) s \<and>
   getCustomersByHealthScore (Some (Finite lo)) (Some NaN) s =
     (if lo < 0 then Inl ValidationError else Inr []) \<and>
   getCustomersByHealthScore (Some NaN) (Some (Finite hi)) s =
     (if 100 < hi then Inl ValidationError else Inr []) \<and>
   getCustomersByHealthScore (Some NaN) (Some NaN) s = Inr [] \<and>
   getCustomersByHealthScore (Some (Finite 150)) (Some NaN) s = Inr [] \<and>
   getCustomersByHealthScore (Some NaN) (Some (Finite (- 5))) s = Inr []"
  by (auto simp: getCustomersByHealthScore_def Let_def numLess_def numGreater_def
                 numGreaterEq_def numLessEq_def)

theorem C8_health_score_range_witness:
  "getCustomersByHealthScore (Some (Finite 40)) (Some (Finite 100)) sampleService
     = Inr [john, sarah] \<and>
   getCustomersByHealthScore (Some (Finite 50)) (Some (Finite 40)) sampleService
     = Inl ValidationError \<and>
   getCustomersByHealthScore None (Some (Finite 101)) sampleService = Inl ValidationError \<and>
   getCustomersByHealthScore (Some (Finite 150)) (Some NaN) sampleService = Inr [] \<and>
   getCustomersByHealthScore (Some NaN) (Some (Finite (- 5))) sampleService = Inr []"
  using C8_health_score_range [of 40 100 sampleService]
    C8_health_score_range [of 50 40 sampleService]
    C8_health_score_range [of 0 101 sampleService "Some (Finite 101)"]
  by (simp add: sampleService_def john_def sarah_def michael_def)

text \<open>
  Claim C9, amended. A search term that is empty or only whitespace gives a successful
  empty result. Any other term is trimmed first: the result is the stored customers, in
  stored order, whose name, company or email contains the trimmed term
  case-insensitively. (The term with its surrounding whitespace is not what is looked
  for, as the counterexample shows.)
\<close>

theorem C9_search_trimmed:
  "searchCustomers term s =
     (if trim term = [] then Inr []
      else Inr (filter (specSearchMatch (trim term)) (customers s)))"
proof -
  have "matchesTerm (trim (toLowerCase term)) = specSearchMatch (trim term)"
    by (rule ext) (simp add: trim_toLowerCase matchesTerm_spec)
  then show ?thesis
    by (auto simp: searchCustomers_def trim_Nil)
qed

theorem C9_search_trimmed_witness:
  "searchCustomers ''   '' sampleService = Inr [] \<and>
   searchCustomers [] sampleService = Inr [] \<and>
   searchCustomers '' ACME'' sampleService = Inr [john] \<and>
   filter (specSearchMatch ''ACME'') (customers sampleService) = [john]"
proof -
  have a: "trim ''   '' = []" by code_simp
  have b: "trim '' ACME'' = ''ACME''" by code_simp
  have c: "filter (specSearchMatch ''ACME'') (customers sampleService) = [john]" by code_simp
  from C9_search_trimmed [of "''   ''" sampleService] C9_search_trimmed [of "[]" sampleService]
    C9_search_trimmed [of "'' ACME''" sampleService] a b c
  show ?thesis by (simp add: trim_Nil)
qed

theorem C9_search_counterexample:
  "searchCustomers '' acme'' sampleService \<noteq>
     Inr (filter (specSearchMatch '' acme'') (customers sampleService))"
  by code_simp

text \<open>
  Claim C10. When a create input omits the tier and is accepted, the stored customer has
  tier basic and the health score 50 plus the domain and email bonuses, with no tier bonus
  and no clamping; the same input with the tier basic written out is accepted too and
  stores the same record with a health score exactly 5 higher, so both records have the
  same tier.
\<close>

theorem C10_omitted_tier:
  assumes "ci_subscriptionTier input = None"
    and "createCustomer now input s = (Inr c, s')"
  shows "subscriptionTier c = Some basic \<and>
         healthScore c = of_int (50 + domainBonus (ci_domains input) + emailBonus (ci_email input)) \<and>
         createCustomer now (input\<lparr>ci_subscriptionTier := Some basic\<rparr>) s =
           (Inr (c\<lparr>healthScore := healthScore c + 5\<rparr>),
            s\<lparr>customers := customers s @ [c\<lparr>healthScore := healthScore c + 5\<rparr>],
              nextId := nextId s + 1\<rparr>) \<and>
         subscriptionTier (c\<lparr>healthScore := healthScore c + 5\<rparr>) = subscriptionTier c"
proof -
  note c = createCustomer_Inr [OF assms(2)]
  have d: "0 \<le> domainBonus ds \<and> domainBonus ds \<le> 20" for ds
    by (simp add: domainBonus_def split: option.splits)
  have e: "0 \<le> emailBonus x \<and> emailBonus x \<le> 10" for x
    by (simp add: emailBonus_def)
  have s0: "calculateInitialHealthScore input =
      of_int (50 + domainBonus (ci_domains input) + emailBonus (ci_email input))"
    using d [of "ci_domains input"] e [of "ci_email input"] assms(1)
    by (simp add: calculateInitialHealthScore_def tierBonus_def Let_def)
  have s5: "calculateInitialHealthScore (input\<lparr>ci_subscriptionTier := Some basic\<rparr>) =
      calculateInitialHealthScore input + 5"
    using d [of "ci_domains input"] e [of "ci_email input"] assms(1)
    by (simp add: calculateInitialHealthScore_def tierBonus_def Let_def)
  have "validateCustomerInput (input\<lparr>ci_subscriptionTier := Some basic\<rparr>) =
        validateCustomerInput input"
    by (simp add: validateCustomerInput_def)
  with c(1) have v: "validateCustomerInput (input\<lparr>ci_subscriptionTier := Some basic\<rparr>) = None"
    by simp
  have nd: "\<not> (truthy (ci_email input) \<and> (\<exists>x \<in> set (customers s). email x = ci_email input))"
    using assms(2) by (auto simp: createCustomer_def Let_def split: option.splits if_splits)
  have "createCustomer now (input\<lparr>ci_subscriptionTier := Some basic\<rparr>) s =
           (Inr (c\<lparr>healthScore := healthScore c + 5\<rparr>),
            s\<lparr>customers := customers s @ [c\<lparr>healthScore := healthScore c + 5\<rparr>],
              nextId := nextId s + 1\<rparr>)"
    using v nd s5 assms(1) by (simp add: createCustomer_def Let_def c(2))
  then show ?thesis using c(2) s0 assms(1) by simp
qed

theorem C10_omitted_tier_witness:
  "createCustomer ''2025-01-01T00:00:00.000Z'' noTierInput emptyService =
     (Inr noTierCustomer, \<lparr>customers = [noTierCustomer], nextId = 10\<rparr>) \<and>
   createCustomer ''2025-01-01T00:00:00.000Z'' (noTierInput\<lparr>ci_subscriptionTier := Some basic\<rparr>)
       emptyService =
     (Inr (noTierCustomer\<lparr>healthScore := 55\<rparr>),
      \<lparr>customers = [noTierCustomer\<lparr>healthScore := 55\<rparr>], nextId = 10\<rparr>)"
proof -
  have t: "ci_subscriptionTier noTierInput = None" by (simp add: noTierInput_def)
  have ok: "createCustomer ''2025-01-01T00:00:00.000Z'' noTierInput emptyService =
     (Inr noTierCustomer, \<lparr>customers = [noTierCustomer], nextId = 10\<rparr>)"
    by code_simp
  from C10_omitted_tier [OF t ok] ok show ?thesis
    by (simp add: noTierCustomer_def emptyService_def)
qed

end
